theory Spec2Isabelle
  imports Main
begin

section \<open>Strings\<close>

text \<open>
  A JavaScript string is a sequence of UTF-16 code units. The model uses \<^typ>\<open>string\<close>:
  a \<^typ>\<open>char\<close> stands for a code unit below 256 (the Latin-1 range), on which
  \<open>trim\<close>, \<open>toLowerCase\<close>, \<open>includes\<close> and \<open>===\<close> are modelled exactly.
  Code units from 256 upwards are outside the model.
\<close>

text \<open>The white space and line terminators that \<open>String.prototype.trim\<close> and the
  regular expression class \<open>\s\<close> recognise, below 256: TAB, LF, VT, FF, CR, SPACE, NBSP.\<close>

definition isWhiteSpace :: "char \<Rightarrow> bool" where
  "isWhiteSpace c \<longleftrightarrow>
     c = CHR 0x09 \<or> c = CHR 0x0A \<or> c = CHR 0x0B \<or> c = CHR 0x0C \<or> c = CHR 0x0D \<or>
     c = CHR 0x20 \<or> c = CHR 0xA0"

definition trim :: "string \<Rightarrow> string" where
  "trim s = rev (dropWhile isWhiteSpace (rev (dropWhile isWhiteSpace s)))"

text \<open>\<open>toLowerCase\<close> on code units below 256: A-Z and the upper-case letters of
  Latin-1 (0xC0-0xDE without the multiplication sign 0xD7) move up by 32.\<close>

definition lowerChar :: "char \<Rightarrow> char" where
  "lowerChar c =
     (let n = (of_char c :: nat)
      in if (65 \<le> n \<and> n \<le> 90) \<or> (192 \<le> n \<and> n \<le> 222 \<and> n \<noteq> 215)
         then char_of (n + 32) else c)"

definition toLowerCase :: "string \<Rightarrow> string" where
  "toLowerCase s = map lowerChar s"

fun startsWith :: "string \<Rightarrow> string \<Rightarrow> bool" where
  "startsWith s [] = True"
| "startsWith [] (c # cs) = False"
| "startsWith (d # ds) (c # cs) = (d = c \<and> startsWith ds cs)"

text \<open>\<open>s.includes(sub)\<close>: \<open>sub\<close> occurs in \<open>s\<close> as a contiguous run; the empty
  string occurs in every string.\<close>

fun includesStr :: "string \<Rightarrow> string \<Rightarrow> bool" where
  "includesStr [] sub = (sub = [])"
| "includesStr (d # ds) sub = (startsWith (d # ds) sub \<or> includesStr ds sub)"

text \<open>\<open>parts.join(sep)\<close>.\<close>

fun join :: "string \<Rightarrow> string list \<Rightarrow> string" where
  "join sep [] = []"
| "join sep [x] = x"
| "join sep (x # y # ys) = x @ sep @ join sep (y # ys)"

section \<open>Configuration types (config/types.ts)\<close>

datatype ProfileAuth = PasswordAuth string | KeyAuth string

record ProfileDefinition =
  p_id :: string
  p_name :: string
  p_host :: string
  p_port :: int
  p_user :: string
  p_auth :: ProfileAuth
  p_suPassword :: "string option"
  p_sudoPassword :: "string option"
  p_note :: string
  p_tags :: "string list"

record ProfilesConfig =
  activeProfile :: string
  profiles :: "ProfileDefinition list"

text \<open>
  The raw document is the parsed, unexpanded configuration tree. Every raw document the
  profile manager holds has passed the schema once, so the model gives it the schema's
  shape: the strings are the unexpanded ones (they may hold \<open>${VAR}\<close> placeholders), and
  the fields the schema fills with a default (\<open>port\<close>, \<open>note\<close>, \<open>tags\<close>) are optional.
  Ports written as digit strings and the \<open>defaults\<close> block are outside the model.
\<close>

record RawProfile =
  r_id :: string
  r_name :: string
  r_host :: string
  r_port :: "int option"
  r_user :: string
  r_auth :: ProfileAuth
  r_suPassword :: "string option"
  r_sudoPassword :: "string option"
  r_note :: "string option"
  r_tags :: "string list option"

record RawConfig =
  raw_version :: int
  raw_activeProfile :: string
  raw_profiles :: "RawProfile list"

record LoadedProfilesConfig =
  config :: ProfilesConfig
  rawConfig :: RawConfig

section \<open>Errors\<close>

text \<open>One constructor for each \<open>throw\<close> of the profile manager and the loader; the
  argument is what the message interpolates.\<close>

datatype error =
    NotInitialized
  | UnresolvedActiveProfile
  | ProfileDoesNotExist string
  | ProfileAlreadyExists string
  | RawProfileNotFound string
  | CannotDeleteLastProfile
  | DeleteRequestUnknown string
  | DeleteRequestExpired string
  | DeleteRequestProfileMismatch
  | InvalidConfirmationText string
  | MissingEnvVar string
  | SchemaError
  | ActiveProfileMissing string
  | RequiresAuthPassword string
  | RequiresAuthKeyPath string
  | KeyPathDoesNotExist string string

section \<open>The world outside the process\<close>

text \<open>
  What the code reads from and writes to its surroundings: the process environment, the
  file system and the YAML/JSON library. \<open>keyFileAccessible keyPath\<close> says whether
  \<open>access(resolveKeyPath(keyPath, configPath))\<close> succeeds; \<open>serializeRawConfig\<close> is the
  library's serialiser for the format of the configuration file; \<open>configFile\<close> is the
  content of the configuration file and \<open>backupFiles\<close> the content of the backup
  directory. Input/output errors of the file system are outside the model.
\<close>

record World =
  env :: "string \<Rightarrow> string option"
  keyFileAccessible :: "string \<Rightarrow> bool"
  serializeRawConfig :: "RawConfig \<Rightarrow> string"
  configFile :: string
  backupFiles :: "string \<rightharpoonup> string"

section \<open>Loading and validation (config/loader.ts)\<close>

definition bindE :: "'e + 'a \<Rightarrow> ('a \<Rightarrow> 'e + 'b) \<Rightarrow> 'e + 'b" where
  "bindE r f = (case r of Inl e \<Rightarrow> Inl e | Inr a \<Rightarrow> f a)"

text \<open>A fallible function along a list, from the left; the first error ends it.\<close>

fun mapE :: "('a \<Rightarrow> 'e + 'b) \<Rightarrow> 'a list \<Rightarrow> 'e + 'b list" where
  "mapE f [] = Inr []"
| "mapE f (item # items) =
     (case f item of
        Inl e \<Rightarrow> Inl e
      | Inr v \<Rightarrow> (case mapE f items of Inl e \<Rightarrow> Inl e | Inr vs \<Rightarrow> Inr (v # vs)))"

definition mapOptionE :: "('a \<Rightarrow> 'e + 'b) \<Rightarrow> 'a option \<Rightarrow> 'e + 'b option" where
  "mapOptionE f v = (case v of None \<Rightarrow> Inr None | Some x \<Rightarrow> bindE (f x) (\<lambda>y. Inr (Some y)))"

text \<open>The character class \<open>[A-Z0-9_]\<close> of \<open>ENV_PATTERN\<close>.\<close>

definition isEnvNameChar :: "char \<Rightarrow> bool" where
  "isEnvNameChar c \<longleftrightarrow>
     (let n = (of_char c :: nat)
      in (65 \<le> n \<and> n \<le> 90) \<or> (48 \<le> n \<and> n \<le> 57) \<or> n = 95)"

text \<open>
  \<open>input.replace(/\$\{([A-Z0-9_]+)\}/g, ...)\<close>: scanning from the left, every
  \<open>${NAME}\<close> is replaced by the value of \<open>NAME\<close> in the environment and the scan goes on
  behind it; the first \<open>NAME\<close> without a value throws.
\<close>

function expandEnvString :: "(string \<Rightarrow> string option) \<Rightarrow> string \<Rightarrow> error + string" where
  "expandEnvString e [] = Inr []"
| "expandEnvString e (c # cs) =
     (let envName = takeWhile isEnvNameChar (drop 1 cs);
          behind = dropWhile isEnvNameChar (drop 1 cs)
      in if c = CHR ''$'' \<and> take 1 cs = ''{'' \<and> envName \<noteq> [] \<and> take 1 behind = ''}''
         then (case e envName of
                 None \<Rightarrow> Inl (MissingEnvVar envName)
               | Some envValue \<Rightarrow>
                   bindE (expandEnvString e (drop 1 behind)) (\<lambda>r. Inr (envValue @ r)))
         else bindE (expandEnvString e cs) (\<lambda>r. Inr (c # r)))"
  by pat_completeness auto
termination
proof (relation "measure (\<lambda>(e, s). length s)")
  show "wf (measure (\<lambda>(e, s). length s))" by simp
next
  fix e :: "string \<Rightarrow> string option" and c :: char and cs x xa xb
  assume "xa = dropWhile isEnvNameChar (drop 1 cs)"
  moreover have "length (dropWhile isEnvNameChar (drop 1 cs)) \<le> length cs"
    by (rule order_trans [OF length_dropWhile_le]) simp
  ultimately show "((e, drop 1 xa), e, c # cs) \<in> measure (\<lambda>(e, s). length s)"
    by simp
next
  fix e :: "string \<Rightarrow> string option" and c :: char and cs
  show "((e, cs), e, c # cs) \<in> measure (\<lambda>(e, s). length s)" by simp
qed

definition expandEnvAuth :: "(string \<Rightarrow> string option) \<Rightarrow> ProfileAuth \<Rightarrow> error + ProfileAuth" where
  "expandEnvAuth e a =
     (case a of
        PasswordAuth password \<Rightarrow> bindE (expandEnvString e password) (\<lambda>v. Inr (PasswordAuth v))
      | KeyAuth keyPath \<Rightarrow> bindE (expandEnvString e keyPath) (\<lambda>v. Inr (KeyAuth v)))"

text \<open>\<open>expandEnv\<close> on a profile and on the document: every string leaf is expanded. The
  leaves are visited in the order of the schema's fields; the code visits them in the
  order of the document's keys, which only decides which of several missing variables
  is reported.\<close>

definition expandEnvProfile :: "(string \<Rightarrow> string option) \<Rightarrow> RawProfile \<Rightarrow> error + RawProfile" where
  "expandEnvProfile e p =
     bindE (expandEnvString e (r_id p)) (\<lambda>v_id.
     bindE (expandEnvString e (r_name p)) (\<lambda>v_name.
     bindE (expandEnvString e (r_host p)) (\<lambda>v_host.
     bindE (expandEnvString e (r_user p)) (\<lambda>v_user.
     bindE (expandEnvAuth e (r_auth p)) (\<lambda>v_auth.
     bindE (mapOptionE (expandEnvString e) (r_suPassword p)) (\<lambda>v_su.
     bindE (mapOptionE (expandEnvString e) (r_sudoPassword p)) (\<lambda>v_sudo.
     bindE (mapOptionE (expandEnvString e) (r_note p)) (\<lambda>v_note.
     bindE (mapOptionE (mapE (expandEnvString e)) (r_tags p)) (\<lambda>v_tags.
       Inr \<lparr> r_id = v_id, r_name = v_name, r_host = v_host, r_port = r_port p,
             r_user = v_user, r_auth = v_auth, r_suPassword = v_su,
             r_sudoPassword = v_sudo, r_note = v_note, r_tags = v_tags \<rparr>)))))))))"

definition expandEnv :: "(string \<Rightarrow> string option) \<Rightarrow> RawConfig \<Rightarrow> error + RawConfig" where
  "expandEnv e raw =
     bindE (expandEnvString e (raw_activeProfile raw)) (\<lambda>v_active.
     bindE (mapE (expandEnvProfile e) (raw_profiles raw)) (\<lambda>v_profiles.
       Inr \<lparr> raw_version = raw_version raw, raw_activeProfile = v_active,
             raw_profiles = v_profiles \<rparr>))"

text \<open>\<open>profileSchema.parse\<close> (config/types.ts): the non-empty strings, the port between 1
  and 65535 with default 22, the two forms of \<open>auth\<close>, and the defaults of \<open>note\<close> and
  \<open>tags\<close>. Any violation is the library's one validation error.\<close>

definition nonEmptyIfPresent :: "string option \<Rightarrow> bool" where
  "nonEmptyIfPresent v \<longleftrightarrow> (case v of None \<Rightarrow> True | Some s \<Rightarrow> s \<noteq> [])"

definition profileSchema_parse :: "RawProfile \<Rightarrow> error + ProfileDefinition" where
  "profileSchema_parse p =
     (let port = (case r_port p of None \<Rightarrow> 22 | Some n \<Rightarrow> n)
      in if r_id p \<noteq> [] \<and> r_name p \<noteq> [] \<and> r_host p \<noteq> [] \<and> 0 < port \<and> port \<le> 65535
            \<and> r_user p \<noteq> []
            \<and> (case r_auth p of PasswordAuth password \<Rightarrow> password \<noteq> []
                              | KeyAuth keyPath \<Rightarrow> keyPath \<noteq> [])
            \<and> nonEmptyIfPresent (r_suPassword p) \<and> nonEmptyIfPresent (r_sudoPassword p)
         then Inr \<lparr> p_id = r_id p, p_name = r_name p, p_host = r_host p, p_port = port,
                   p_user = r_user p, p_auth = r_auth p, p_suPassword = r_suPassword p,
                   p_sudoPassword = r_sudoPassword p,
                   p_note = (case r_note p of None \<Rightarrow> [] | Some n \<Rightarrow> n),
                   p_tags = (case r_tags p of None \<Rightarrow> [] | Some ts \<Rightarrow> ts) \<rparr>
         else Inl SchemaError)"

text \<open>\<open>profilesConfigSchema.parse\<close>: version 1, a non-empty \<open>activeProfile\<close>, at least one
  profile, and (the \<open>superRefine\<close>) no profile id twice.\<close>

definition profilesConfigSchema_parse :: "RawConfig \<Rightarrow> error + ProfilesConfig" where
  "profilesConfigSchema_parse raw =
     bindE (mapE profileSchema_parse (raw_profiles raw)) (\<lambda>ps.
       if raw_version raw = 1 \<and> raw_activeProfile raw \<noteq> [] \<and> ps \<noteq> []
          \<and> distinct (map p_id ps)
       then Inr \<lparr> activeProfile = raw_activeProfile raw, profiles = ps \<rparr>
       else Inl SchemaError)"

definition ensureActiveProfileExists :: "ProfilesConfig \<Rightarrow> error + unit" where
  "ensureActiveProfileExists c =
     (if list_ex (\<lambda>profile. p_id profile = activeProfile c) (profiles c) then Inr ()
      else Inl (ActiveProfileMissing (activeProfile c)))"

fun validateProfileAuthFields :: "World \<Rightarrow> ProfileDefinition list \<Rightarrow> error + unit" where
  "validateProfileAuthFields w [] = Inr ()"
| "validateProfileAuthFields w (profile # rest) =
     (case p_auth profile of
        PasswordAuth password \<Rightarrow>
          if password = [] \<or> trim password = [] then Inl (RequiresAuthPassword (p_id profile))
          else validateProfileAuthFields w rest
      | KeyAuth keyPath \<Rightarrow>
          if keyPath = [] \<or> trim keyPath = [] then Inl (RequiresAuthKeyPath (p_id profile))
          else if \<not> keyFileAccessible w keyPath
          then Inl (KeyPathDoesNotExist (p_id profile) keyPath)
          else validateProfileAuthFields w rest)"

definition validateRawProfilesConfig :: "World \<Rightarrow> RawConfig \<Rightarrow> error + ProfilesConfig" where
  "validateRawProfilesConfig w raw =
     bindE (expandEnv (env w) raw) (\<lambda>expandedConfig.
     bindE (profilesConfigSchema_parse expandedConfig) (\<lambda>parsedConfig.
     bindE (ensureActiveProfileExists parsedConfig) (\<lambda>_.
     bindE (validateProfileAuthFields w (profiles parsedConfig)) (\<lambda>_.
       Inr parsedConfig))))"

text \<open>\<open>saveRawProfilesConfig\<close>: the raw (unexpanded) document is serialised and written
  over the configuration file.\<close>

definition saveRawProfilesConfig :: "World \<Rightarrow> LoadedProfilesConfig \<Rightarrow> World" where
  "saveRawProfilesConfig w loaded =
     w\<lparr>configFile := serializeRawConfig w (rawConfig loaded)\<rparr>"

section \<open>The profile manager (profile/profile-manager.ts)\<close>

record PendingDeleteRequest =
  requestId :: string
  profileId :: string
  backupPath :: string
  createdAt :: int
  expiresAt :: int

record ProfileManager =
  loadedConfig :: "LoadedProfilesConfig option"
  activeProfileId :: "string option"
  profileOverride :: "string option"
  pendingDeletes :: "string \<rightharpoonup> PendingDeleteRequest"

definition hasProfile :: "ProfileDefinition list \<Rightarrow> string \<Rightarrow> bool" where
  "hasProfile ps pid \<longleftrightarrow> pid \<in> set (map p_id ps)"

text \<open>\<open>!this.loadedConfig || !this.activeProfileId\<close>: the empty string is falsy too.\<close>

definition ensureLoaded :: "ProfileManager \<Rightarrow> error + LoadedProfilesConfig" where
  "ensureLoaded m =
     (case loadedConfig m of
        None \<Rightarrow> Inl NotInitialized
      | Some loaded \<Rightarrow>
          (case activeProfileId m of
             None \<Rightarrow> Inl NotInitialized
           | Some a \<Rightarrow> if a = [] then Inl NotInitialized else Inr loaded))"

subsection \<open>Listing (config/loader.ts, \<open>profileSummary\<close>)\<close>

text \<open>\<open>path.basename\<close> of the POSIX flavour: trailing slashes are dropped, then the part
  after the last slash is kept.\<close>

definition basename :: "string \<Rightarrow> string" where
  "basename p =
     rev (takeWhile (\<lambda>c. c \<noteq> CHR ''/'') (dropWhile (\<lambda>c. c = CHR ''/'') (rev p)))"

record ProfileSummary =
  s_id :: string
  s_name :: string
  s_host :: string
  s_port :: int
  s_user :: string
  s_note :: string
  s_tags :: "string list"
  s_auth :: ProfileAuth
  s_active :: bool

definition profileSummary :: "ProfileDefinition \<Rightarrow> string \<Rightarrow> ProfileSummary" where
  "profileSummary profile activeId =
     \<lparr> s_id = p_id profile, s_name = p_name profile, s_host = p_host profile,
       s_port = p_port profile, s_user = p_user profile, s_note = p_note profile,
       s_tags = p_tags profile,
       s_auth = (case p_auth profile of
                   PasswordAuth _ \<Rightarrow> PasswordAuth ''***''
                 | KeyAuth keyPath \<Rightarrow> KeyAuth (basename keyPath)),
       s_active = (p_id profile = activeId) \<rparr>"

definition listProfiles :: "ProfileManager \<Rightarrow> error + ProfileSummary list" where
  "listProfiles m =
     (case ensureLoaded m of
        Inl e \<Rightarrow> Inl e
      | Inr loaded \<Rightarrow>
          Inr (map (\<lambda>profile. profileSummary profile (the (activeProfileId m)))
                 (profiles (config loaded))))"

subsection \<open>Search\<close>

text \<open>The score of one listed profile against the normalised query: the eight
  \<open>if (...) score += w\<close> lines of \<open>findProfiles\<close>, in their order.\<close>

definition matchScore :: "string \<Rightarrow> ProfileSummary \<Rightarrow> int" where
  "matchScore normalized profile =
     (let f_id = toLowerCase (s_id profile);
          f_name = toLowerCase (s_name profile);
          f_host = toLowerCase (s_host profile);
          f_user = toLowerCase (s_user profile);
          f_note = toLowerCase (s_note profile);
          f_tags = map toLowerCase (s_tags profile)
      in (if f_id = normalized then 100 else 0)
       + (if includesStr f_id normalized then 50 else 0)
       + (if f_host = normalized then 40 else 0)
       + (if includesStr f_host normalized then 20 else 0)
       + (if includesStr f_name normalized then 15 else 0)
       + (if includesStr f_user normalized then 10 else 0)
       + (if includesStr f_note normalized then 8 else 0)
       + (if list_ex (\<lambda>tag. includesStr tag normalized) f_tags then 12 else 0))"

text \<open>
  A returned entry is the listed profile and, on the scoring path, its \<open>matchScore\<close>
  property; the entries of a blank query are the plain listing and carry none.
  \<open>Array.prototype.sort\<close> is stable (ECMAScript 2019), and the comparator
  \<open>b.score - a.score\<close> orders by descending score: \<^const>\<open>sort_key\<close> on the negated
  score is that sort.
\<close>

definition findProfiles ::
  "ProfileManager \<Rightarrow> string \<Rightarrow> error + (ProfileSummary \<times> int option) list" where
  "findProfiles m query =
     (let normalized = toLowerCase (trim query)
      in case listProfiles m of
           Inl e \<Rightarrow> Inl e
         | Inr all \<Rightarrow>
             if normalized = [] then Inr (map (\<lambda>profile. (profile, None)) all)
             else Inr (map (\<lambda>item. (snd item, Some (fst item)))
                         (sort_key (\<lambda>item. - fst item)
                            (filter (\<lambda>item. fst item > 0)
                               (map (\<lambda>profile. (matchScore normalized profile, profile)) all)))))"


subsection \<open>Resolving the active profile and persisting\<close>

text \<open>\<open>pickActiveProfileId\<close>: the first candidate that is truthy (present and not the
  empty string) and names a profile of the loaded configuration.\<close>

fun firstExistingCandidate :: "ProfileDefinition list \<Rightarrow> string option list \<Rightarrow> error + string" where
  "firstExistingCandidate ps [] = Inl UnresolvedActiveProfile"
| "firstExistingCandidate ps (None # candidates) = firstExistingCandidate ps candidates"
| "firstExistingCandidate ps (Some candidate # candidates) =
     (if candidate \<noteq> [] \<and> hasProfile ps candidate then Inr candidate
      else firstExistingCandidate ps candidates)"

definition pickActiveProfileId ::
  "ProfileManager \<Rightarrow> LoadedProfilesConfig \<Rightarrow> string option \<Rightarrow> error + string" where
  "pickActiveProfileId m loaded preferred =
     firstExistingCandidate (profiles (config loaded))
       [preferred, profileOverride m, Some (activeProfile (config loaded))]"

definition getProfileMaybe :: "ProfileManager \<Rightarrow> string \<Rightarrow> error + ProfileDefinition option" where
  "getProfileMaybe m pid =
     bindE (ensureLoaded m) (\<lambda>loaded.
       Inr (find (\<lambda>item. p_id item = pid) (profiles (config loaded))))"

definition getProfile :: "ProfileManager \<Rightarrow> string \<Rightarrow> error + ProfileDefinition" where
  "getProfile m pid =
     bindE (ensureLoaded m) (\<lambda>loaded.
       case find (\<lambda>item. p_id item = pid) (profiles (config loaded)) of
         None \<Rightarrow> Inl (ProfileDoesNotExist pid)
       | Some profile \<Rightarrow> Inr profile)"

definition getActiveProfileId :: "ProfileManager \<Rightarrow> error + string" where
  "getActiveProfileId m = bindE (ensureLoaded m) (\<lambda>_. Inr (the (activeProfileId m)))"

text \<open>
  An operation of the manager returns its result or its error together with the world
  and the manager as it leaves them, so that what a failing call has already written
  stays visible. \<open>persistRawConfig\<close> validates first; only then it writes the file and
  replaces the loaded configuration; last it resolves the active id again, with
  \<open>preferredActiveId ?? this.activeProfileId\<close> as the first candidate.
\<close>

definition persistRawConfig ::
  "World \<Rightarrow> ProfileManager \<Rightarrow> RawConfig \<Rightarrow> string option
     \<Rightarrow> (error + unit) \<times> World \<times> ProfileManager" where
  "persistRawConfig w m raw preferredActiveId =
     (case ensureLoaded m of
        Inl e \<Rightarrow> (Inl e, w, m)
      | Inr currentLoaded \<Rightarrow>
          (case validateRawProfilesConfig w raw of
             Inl e \<Rightarrow> (Inl e, w, m)
           | Inr parsedConfig \<Rightarrow>
               (let nextLoaded = currentLoaded\<lparr>rawConfig := raw, config := parsedConfig\<rparr>;
                    w' = saveRawProfilesConfig w nextLoaded;
                    m' = m\<lparr>loadedConfig := Some nextLoaded\<rparr>
                in case pickActiveProfileId m' nextLoaded
                          (case preferredActiveId of
                             Some preferred \<Rightarrow> Some preferred
                           | None \<Rightarrow> activeProfileId m') of
                     Inl e \<Rightarrow> (Inl e, w', m')
                   | Inr a \<Rightarrow> (Inr (), w', m'\<lparr>activeProfileId := Some a\<rparr>))))"

subsection \<open>Creating a profile\<close>

record ProfileCreateInput =
  i_id :: string
  i_name :: string
  i_host :: string
  i_port :: "int option"
  i_user :: string
  i_auth :: ProfileAuth
  i_suPassword :: "string option"
  i_sudoPassword :: "string option"
  i_note :: "string option"
  i_tags :: "string list option"
  i_contextSummary :: "string option"
  i_activate :: "bool option"

text \<open>\<open>input.replace(/\s+/g, ' ')\<close>: every run of white space becomes one space.\<close>

function collapseWhiteSpace :: "string \<Rightarrow> string" where
  "collapseWhiteSpace [] = []"
| "collapseWhiteSpace (c # cs) =
     (if isWhiteSpace c then CHR '' '' # collapseWhiteSpace (dropWhile isWhiteSpace cs)
      else c # collapseWhiteSpace cs)"
  by pat_completeness auto
termination
proof (relation "measure length")
  show "wf (measure length)" by simp
next
  fix c :: char and cs :: string
  have "length (dropWhile isWhiteSpace cs) \<le> length cs" by (rule length_dropWhile_le)
  then show "(dropWhile isWhiteSpace cs, c # cs) \<in> measure length" by simp
next
  fix c :: char and cs :: string
  show "(cs, c # cs) \<in> measure length" by simp
qed

definition toShortNote :: "string \<Rightarrow> string" where
  "toShortNote input =
     (let normalized = trim (collapseWhiteSpace input)
      in if length normalized \<le> 120 then normalized else take 117 normalized @ ''...'')"

definition defaultNoteForProfile :: "ProfileCreateInput \<Rightarrow> string" where
  "defaultNoteForProfile input =
     (let hints =
            (case i_contextSummary input of
               Some summary \<Rightarrow>
                 if summary \<noteq> [] \<and> length (trim summary) > 0 then [trim summary] else []
             | None \<Rightarrow> [])
            @ (case i_tags input of
                 Some ts \<Rightarrow> if length ts > 0 then [''tags:'' @ join '','' ts] else []
               | None \<Rightarrow> [])
            @ [i_name input @ ''('' @ i_host input @ '')'']
      in case i_note input of
           Some note \<Rightarrow>
             if note \<noteq> [] \<and> length (trim note) > 0 then toShortNote note
             else toShortNote (join '' | '' hints)
         | None \<Rightarrow> toShortNote (join '' | '' hints))"

text \<open>The raw profile that \<open>createProfile\<close> pushes, and the document it hands to
  \<open>persistRawConfig\<close>: the clone of the current raw document with the new profile at the
  end and, when activating, \<open>activeProfile\<close> set to the new id.\<close>

definition createProfile_rawProfile :: "ProfileCreateInput \<Rightarrow> string \<Rightarrow> RawProfile" where
  "createProfile_rawProfile input parsedNote =
     \<lparr> r_id = i_id input, r_name = i_name input, r_host = i_host input,
       r_port = Some (case i_port input of None \<Rightarrow> 22 | Some n \<Rightarrow> n),
       r_user = i_user input, r_auth = i_auth input,
       r_suPassword = (case i_suPassword input of
                         Some s \<Rightarrow> if s \<noteq> [] then Some s else None | None \<Rightarrow> None),
       r_sudoPassword = (case i_sudoPassword input of
                           Some s \<Rightarrow> if s \<noteq> [] then Some s else None | None \<Rightarrow> None),
       r_note = Some parsedNote,
       r_tags = Some (case i_tags input of None \<Rightarrow> [] | Some ts \<Rightarrow> ts) \<rparr>"

definition shouldActivate :: "ProfileCreateInput \<Rightarrow> bool" where
  "shouldActivate input = (case i_activate input of None \<Rightarrow> True | Some b \<Rightarrow> b)"

definition createProfile_nextRawConfig ::
  "LoadedProfilesConfig \<Rightarrow> ProfileCreateInput \<Rightarrow> string \<Rightarrow> RawConfig" where
  "createProfile_nextRawConfig loaded input parsedNote =
     (let pushed = (rawConfig loaded)\<lparr>raw_profiles :=
                      raw_profiles (rawConfig loaded) @ [createProfile_rawProfile input parsedNote]\<rparr>
      in if shouldActivate input then pushed\<lparr>raw_activeProfile := i_id input\<rparr> else pushed)"

text \<open>What \<open>createProfile\<close> gives to \<open>profileSchema.parse\<close>.\<close>

definition createProfile_schemaInput :: "ProfileCreateInput \<Rightarrow> RawProfile" where
  "createProfile_schemaInput input =
     \<lparr> r_id = i_id input, r_name = i_name input, r_host = i_host input,
       r_port = Some (case i_port input of None \<Rightarrow> 22 | Some n \<Rightarrow> n),
       r_user = i_user input, r_auth = i_auth input,
       r_suPassword = i_suPassword input, r_sudoPassword = i_sudoPassword input,
       r_note = Some (defaultNoteForProfile input),
       r_tags = Some (case i_tags input of None \<Rightarrow> [] | Some ts \<Rightarrow> ts) \<rparr>"

definition createProfile ::
  "World \<Rightarrow> ProfileManager \<Rightarrow> ProfileCreateInput
     \<Rightarrow> (error + ProfileSummary) \<times> World \<times> ProfileManager" where
  "createProfile w m input =
     (case ensureLoaded m of
        Inl e \<Rightarrow> (Inl e, w, m)
      | Inr loaded \<Rightarrow>
          if find (\<lambda>item. p_id item = i_id input) (profiles (config loaded)) \<noteq> None
          then (Inl (ProfileAlreadyExists (i_id input)), w, m)
          else
            (case profileSchema_parse (createProfile_schemaInput input) of
               Inl e \<Rightarrow> (Inl e, w, m)
             | Inr parsed \<Rightarrow>
                 (case persistRawConfig w m
                         (createProfile_nextRawConfig loaded input (p_note parsed))
                         (if shouldActivate input then Some (i_id input) else activeProfileId m) of
                    (Inl e, w', m') \<Rightarrow> (Inl e, w', m')
                  | (Inr _, w', m') \<Rightarrow>
                      (case getProfile m' (i_id input) of
                         Inl e \<Rightarrow> (Inl e, w', m')
                       | Inr profile \<Rightarrow>
                           (case getActiveProfileId m' of
                              Inl e \<Rightarrow> (Inl e, w', m')
                            | Inr a \<Rightarrow> (Inr (profileSummary profile a), w', m'))))))"

subsection \<open>The confirmed delete\<close>

definition readPersistedActiveProfileId :: "RawConfig \<Rightarrow> string \<Rightarrow> string" where
  "readPersistedActiveProfileId raw fallback =
     (if length (trim (raw_activeProfile raw)) > 0 then raw_activeProfile raw else fallback)"

record PrepareDeleteResult =
  deleteRequestId :: string
  pd_profile :: ProfileSummary
  pd_backupPath :: string
  pd_expiresAt :: int
  confirmationText :: string

text \<open>\<open>backupCurrentConfig\<close> copies the configuration file into the backup directory.
  The name of the copy (time stamp and sanitised reason) is given to the model, as are
  the clock \<open>now\<close> and the fresh \<open>randomUUID()\<close>.\<close>

definition backupCurrentConfig :: "World \<Rightarrow> string \<Rightarrow> World" where
  "backupCurrentConfig w path = w\<lparr>backupFiles := (backupFiles w)(path \<mapsto> configFile w)\<rparr>"

definition prepareDeleteProfile ::
  "World \<Rightarrow> ProfileManager \<Rightarrow> int \<Rightarrow> string \<Rightarrow> string \<Rightarrow> string
     \<Rightarrow> (error + PrepareDeleteResult) \<times> World \<times> ProfileManager" where
  "prepareDeleteProfile w m now uuid path pid =
     (case ensureLoaded m of
        Inl e \<Rightarrow> (Inl e, w, m)
      | Inr loaded \<Rightarrow>
          (case getProfile m pid of
             Inl e \<Rightarrow> (Inl e, w, m)
           | Inr profile \<Rightarrow>
               if length (profiles (config loaded)) \<le> 1 then (Inl CannotDeleteLastProfile, w, m)
               else
                 (let w' = backupCurrentConfig w path;
                      created = now;
                      expires = created + 10 * 60 * 1000;
                      m' = m\<lparr>pendingDeletes := (pendingDeletes m)(uuid \<mapsto>
                              \<lparr> requestId = uuid, profileId = pid, backupPath = path,
                                createdAt = created, expiresAt = expires \<rparr>)\<rparr>
                  in case getActiveProfileId m' of
                       Inl e \<Rightarrow> (Inl e, w', m')
                     | Inr a \<Rightarrow>
                         (Inr \<lparr> deleteRequestId = uuid, pd_profile = profileSummary profile a,
                                pd_backupPath = path, pd_expiresAt = expires,
                                confirmationText = ''DELETE '' @ pid \<rparr>, w', m'))))"

record ConfirmDeleteResult =
  deletedProfileId :: string
  deletedProfile :: ProfileSummary
  cd_activeProfile :: string
  persistedActiveProfile :: string
  cd_backupPath :: string

definition confirmDeleteProfile ::
  "World \<Rightarrow> ProfileManager \<Rightarrow> int \<Rightarrow> string \<Rightarrow> string \<Rightarrow> string
     \<Rightarrow> (error + ConfirmDeleteResult) \<times> World \<times> ProfileManager" where
  "confirmDeleteProfile w m now rid pid text =
     (case pendingDeletes m rid of
        None \<Rightarrow> (Inl (DeleteRequestUnknown rid), w, m)
      | Some pending \<Rightarrow>
          if expiresAt pending < now
          then (Inl (DeleteRequestExpired rid), w, m\<lparr>pendingDeletes := (pendingDeletes m)(rid := None)\<rparr>)
          else if profileId pending \<noteq> pid then (Inl DeleteRequestProfileMismatch, w, m)
          else if trim text \<noteq> ''DELETE '' @ pid
          then (Inl (InvalidConfirmationText (''DELETE '' @ pid)), w, m)
          else
            (case ensureLoaded m of
               Inl e \<Rightarrow> (Inl e, w, m)
             | Inr loaded \<Rightarrow>
                 (case getProfile m pid of
                    Inl e \<Rightarrow> (Inl e, w, m)
                  | Inr profileToDelete \<Rightarrow>
                      (let nextProfiles = filter (\<lambda>item. p_id item \<noteq> pid) (profiles (config loaded))
                       in if length nextProfiles = 0 then (Inl CannotDeleteLastProfile, w, m)
                          else
                            (let runtimeActiveId = the (activeProfileId m);
                                 persistedActiveId =
                                   readPersistedActiveProfileId (rawConfig loaded)
                                     (activeProfile (config loaded));
                                 nextPersistedActiveId =
                                   (if persistedActiveId = pid then p_id (hd nextProfiles)
                                    else persistedActiveId);
                                 normalizedPersistedActiveId =
                                   (if hasProfile nextProfiles nextPersistedActiveId
                                    then nextPersistedActiveId else p_id (hd nextProfiles));
                                 nextRuntimeActiveId =
                                   (if runtimeActiveId = pid then normalizedPersistedActiveId
                                    else runtimeActiveId);
                                 normalizedRuntimeActiveId =
                                   (if hasProfile nextProfiles nextRuntimeActiveId
                                    then nextRuntimeActiveId else normalizedPersistedActiveId);
                                 rawProfiles = raw_profiles (rawConfig loaded);
                                 filteredRawProfiles = filter (\<lambda>item. r_id item \<noteq> pid) rawProfiles
                             in if length filteredRawProfiles = length rawProfiles
                                then (Inl (RawProfileNotFound pid), w, m)
                                else
                                  (case persistRawConfig w m
                                          ((rawConfig loaded)\<lparr>raw_profiles := filteredRawProfiles,
                                              raw_activeProfile := normalizedPersistedActiveId\<rparr>)
                                          (Some normalizedRuntimeActiveId) of
                                     (Inl e, w', m') \<Rightarrow> (Inl e, w', m')
                                   | (Inr _, w', m') \<Rightarrow>
                                       (Inr \<lparr> deletedProfileId = pid,
                                              deletedProfile =
                                                profileSummary profileToDelete normalizedRuntimeActiveId,
                                              cd_activeProfile = normalizedRuntimeActiveId,
                                              persistedActiveProfile = normalizedPersistedActiveId,
                                              cd_backupPath = backupPath pending \<rparr>,
                                        w', m'\<lparr>pendingDeletes := (pendingDeletes m')(rid := None)\<rparr>)))))))"


section \<open>The connection manager (ssh/connection-manager.ts)\<close>

record SSHConfig =
  c_profileId :: "string option"
  c_host :: string
  c_port :: nat
  c_username :: string
  c_password :: "string option"
  c_privateKey :: "string option"
  c_suPassword :: "string option"
  c_sudoPassword :: "string option"

text \<open>An error object of the transport: its optional \<open>code\<close> and its \<open>message\<close>. An
  \<open>McpError\<close> is kept as the message it was constructed with.\<close>

record ConnError =
  e_code :: "string option"
  e_message :: string

datatype McpError = McpError string

text \<open>A number inside a template literal is rendered in decimal: the digits are
  collected from the least significant one, each in front of those already found.\<close>

fun decimalDigits :: "nat \<Rightarrow> nat list \<Rightarrow> nat list" where
  "decimalDigits n found =
     (if n < 10 then n # found else decimalDigits (n div 10) (n mod 10 # found))"

definition numberToString :: "nat \<Rightarrow> string" where
  "numberToString n = map (\<lambda>d. char_of (of_char CHR ''0'' + d)) (decimalDigits n [])"

definition exitCodeToString :: "int \<Rightarrow> string" where
  "exitCodeToString code =
     (if 0 \<le> code then numberToString (nat code) else CHR ''-'' # numberToString (nat (- code)))"

definition isAuthFailure :: "ConnError \<Rightarrow> bool" where
  "isAuthFailure err =
     (let message = toLowerCase (e_message err)
      in includesStr message ''authentication'' \<or>
         includesStr message ''permission denied'' \<or>
         includesStr message ''all configured authentication methods failed'' \<or>
         includesStr message ''auth failed'')"

definition isRetryableConnectionError :: "ConnError \<Rightarrow> bool" where
  "isRetryableConnectionError err =
     (if isAuthFailure err then False
      else
        (let message = toLowerCase (e_message err)
         in if (case e_code err of
                  None \<Rightarrow> False
                | Some code \<Rightarrow>
                    code \<noteq> [] \<and>
                    code \<in> set [''ECONNREFUSED'', ''ECONNRESET'', ''EHOSTUNREACH'',
                                ''ENETUNREACH'', ''ETIMEDOUT''])
            then True
            else includesStr message ''handshake'' \<or>
                 includesStr message ''kex'' \<or>
                 includesStr message ''timeout'' \<or>
                 includesStr message ''timed out'' \<or>
                 includesStr message ''connection closed'' \<or>
                 includesStr message ''protocol''))"

definition formatTargetContext :: "SSHConfig \<Rightarrow> string" where
  "formatTargetContext cfg =
     ''profileId='' @
       (case c_profileId cfg of
          None \<Rightarrow> ''unknown''
        | Some pid \<Rightarrow> if pid \<noteq> [] then pid else ''unknown'')
     @ '' host='' @ c_host cfg @ '' port='' @ numberToString (c_port cfg)"

text \<open>
  The state of one manager. \<open>conn\<close> is \<open>None\<close> for \<open>null\<close> and \<open>Some alive\<close> for a client
  whose socket is there and not destroyed (\<open>alive\<close>) or not; \<open>suShell\<close> is the channel of
  the elevated shell. \<open>suPromise\<close> is \<open>None\<close> for \<open>null\<close> and otherwise the promise held in
  the field, in the state it has at that moment: pending while its \<open>su\<close> dialogue is in
  flight, rejected when the executor threw. The fields \<open>isConnecting\<close> and
  \<open>connectionPromise\<close> are set while \<open>connectWithRetry\<close> runs and cleared when it
  settles; they hand the promise of the run in flight to a second caller, so a run
  always starts with both cleared.
\<close>

datatype Promise = Fulfilled | Rejected McpError | Pending

record SSHConnectionManager =
  sshConfig :: SSHConfig
  conn :: "bool option"
  suShell :: "nat option"
  suPromise :: "Promise option"
  isElevated :: bool

text \<open>
  What the surroundings do during one \<open>connect()\<close>. \<open>clientOutcome k\<close> is what the client
  of attempt \<open>k\<close> does first: it reports \<open>ready\<close>, it reports \<open>error\<close>, it reports
  nothing before the 30 second timer, or its \<open>connect\<close> method throws inside the executor
  of the promise. A \<open>su\<close> dialogue started by \<open>ensureElevated\<close> ends with the elevated shell or with
  one of its rejections (the 10 second timer, the shell error, the authentication
  failure, the close before elevation). \<open>whileElevating k\<close> says what comes first while
  the \<open>ready\<close> handler of attempt \<open>k\<close> awaits the promise of \<open>ensureElevated\<close>: the
  promise settles, a pending one with the given end of its dialogue, or the client
  reports an \<open>error\<close>. \<open>endedBefore k\<close> is the end of a dialogue that is in flight when
  attempt \<open>k\<close> starts, if it ends before the client of attempt \<open>k\<close> reports.
  \<open>testEnv\<close> says whether \<open>process.env.SSH_MCP_TEST\<close> is a non-empty string. What a
  client reports after its attempt has settled is not part of the run.
\<close>

datatype ClientOutcome =
  ClientReady | ClientError ConnError | ClientSilent | ConnectThrows ConnError

datatype SuOutcome = SuElevated nat | SuRejected McpError

datatype ElevationWait = PromiseSettles SuOutcome | ClientErrorFirst ConnError

record ConnectScript =
  clientOutcome :: "nat \<Rightarrow> ClientOutcome"
  whileElevating :: "nat \<Rightarrow> ElevationWait"
  endedBefore :: "nat \<Rightarrow> SuOutcome option"
  testEnv :: bool

text \<open>What a run does, in order: the connection attempts, the sleeps between them, the
  calls of \<open>ensureElevated\<close> and the interactive shells it requests.\<close>

datatype ConnectEvent = ConnectAttempt nat | Sleep nat | EnsureElevatedCalled | SuShellRequested

definition DEFAULT_CONNECT_RETRY_DELAYS_MS :: "nat list" where
  "DEFAULT_CONNECT_RETRY_DELAYS_MS = [200, 400]"

definition isTruthy :: "string option \<Rightarrow> bool" where
  "isTruthy v \<longleftrightarrow> (case v of None \<Rightarrow> False | Some s \<Rightarrow> s \<noteq> [])"

text \<open>
  \<open>ensureElevated\<close> up to its \<open>return\<close>: the promise it hands back, in the state it has
  then. A promise held in \<open>suPromise\<close> is handed back as it is. Otherwise a new promise is
  stored; its executor runs at once, and either \<open>getConnection()\<close> throws, which leaves
  the stored promise rejected, or the interactive shell is requested and the promise
  stays pending until the dialogue ends.
\<close>

definition ensureElevated ::
  "SSHConnectionManager \<Rightarrow> Promise \<times> SSHConnectionManager \<times> ConnectEvent list" where
  "ensureElevated m =
     (if isElevated m \<and> suShell m \<noteq> None then (Fulfilled, m, [])
      else if \<not> isTruthy (c_suPassword (sshConfig m)) then (Fulfilled, m, [])
      else
        (case suPromise m of
           Some held \<Rightarrow> (held, m, [])
         | None \<Rightarrow>
             if conn m = None
             then
               (let thrown = Rejected (McpError (''SSH connection not established (''
                                @ formatTargetContext (sshConfig m) @ '')''))
                in (thrown, m\<lparr>suPromise := Some thrown\<rparr>, []))
             else (Pending, m\<lparr>suPromise := Some Pending\<rparr>, [SuShellRequested])))"

text \<open>The end of a \<open>su\<close> dialogue, as its callbacks have it: on the root prompt the shell
  is kept and the promise resolved; every rejection only clears \<open>suPromise\<close>. A promise
  settles once; what the callbacks of a dialogue do after that (a prompt that arrives
  after the 10 second timer) is not part of a run.\<close>

definition suDialogueEnds :: "SSHConnectionManager \<Rightarrow> SuOutcome \<Rightarrow> SSHConnectionManager" where
  "suDialogueEnds m ending =
     (case ending of
        SuElevated stream \<Rightarrow> m\<lparr>suShell := Some stream, isElevated := True, suPromise := None\<rparr>
      | SuRejected e \<Rightarrow> m\<lparr>suPromise := None\<rparr>)"

text \<open>
  \<open>connectOnce\<close>. On \<open>ready\<close>, and only with a \<open>su\<close> secret and outside the test
  environment, \<open>ensureElevated\<close> is awaited inside a \<open>try\<close> whose \<open>catch\<close> is empty, and
  then the attempt resolves. While the handler awaits, the \<open>error\<close> handler of the
  client is still installed: an \<open>error\<close> event then clears \<open>conn\<close> and rejects the
  attempt, and a dialogue that was pending stays in flight. Without the \<open>await\<close> the
  attempt resolves inside the \<open>ready\<close> handler. The \<open>error\<close> handler and the timer clear
  \<open>conn\<close>; when \<open>client.connect\<close> throws, the promise is rejected and \<open>conn\<close> still holds
  the client, which has no socket.
\<close>

definition connectOnce ::
  "SSHConnectionManager \<Rightarrow> ConnectScript \<Rightarrow> nat
     \<Rightarrow> (ConnError + unit) \<times> SSHConnectionManager \<times> ConnectEvent list" where
  "connectOnce m script attempt =
     (let m0 = (case endedBefore script attempt of
                  Some ending \<Rightarrow> if suPromise m = Some Pending then suDialogueEnds m ending else m
                | None \<Rightarrow> m)
      in case clientOutcome script attempt of
           ClientReady \<Rightarrow>
             (let m1 = m0\<lparr>conn := Some True\<rparr>
              in if isTruthy (c_suPassword (sshConfig m1)) \<and> \<not> testEnv script
                 then
                   (case ensureElevated m1 of
                      (promise, m2, evs) \<Rightarrow>
                        (case whileElevating script attempt of
                           PromiseSettles ending \<Rightarrow>
                             (Inr (),
                              (case promise of
                                 Fulfilled \<Rightarrow> m2
                               | Rejected e \<Rightarrow> m2
                               | Pending \<Rightarrow> suDialogueEnds m2 ending),
                              ConnectAttempt attempt # EnsureElevatedCalled # evs)
                         | ClientErrorFirst err \<Rightarrow>
                             (Inl err, m2\<lparr>conn := None\<rparr>,
                              ConnectAttempt attempt # EnsureElevatedCalled # evs)))
                 else (Inr (), m1, [ConnectAttempt attempt]))
         | ClientError err \<Rightarrow> (Inl err, m0\<lparr>conn := None\<rparr>, [ConnectAttempt attempt])
         | ClientSilent \<Rightarrow>
             (Inl \<lparr> e_code = Some ''ETIMEDOUT'', e_message = ''SSH connection timeout'' \<rparr>,
              m0\<lparr>conn := None\<rparr>, [ConnectAttempt attempt])
         | ConnectThrows err \<Rightarrow> (Inl err, m0\<lparr>conn := Some False\<rparr>, [ConnectAttempt attempt]))"

definition wrapConnectionError :: "SSHConnectionManager \<Rightarrow> ConnError \<Rightarrow> McpError" where
  "wrapConnectionError m err =
     McpError (''SSH connection error ('' @ formatTargetContext (sshConfig m) @ ''): ''
                 @ e_message err)"

text \<open>The \<open>for\<close> loop of \<open>connectWithRetry\<close>, from \<open>attempt\<close> on. The \<open>throw\<close> behind the
  loop is the last branch; \<open>lastError\<close> is then the error of the attempt before.\<close>

function connectWithRetry_from ::
  "SSHConnectionManager \<Rightarrow> ConnectScript \<Rightarrow> nat \<Rightarrow> ConnError option
     \<Rightarrow> (McpError + unit) \<times> SSHConnectionManager \<times> ConnectEvent list" where
  "connectWithRetry_from m script attempt lastError =
     (if attempt \<le> length DEFAULT_CONNECT_RETRY_DELAYS_MS
      then
        (case connectOnce m script attempt of
           (Inr _, m', evs) \<Rightarrow> (Inr (), m', evs)
         | (Inl err, m', evs) \<Rightarrow>
             if \<not> isRetryableConnectionError err
                \<or> attempt = length DEFAULT_CONNECT_RETRY_DELAYS_MS
             then (Inl (wrapConnectionError m' err), m', evs)
             else
               (case connectWithRetry_from m' script (attempt + 1) (Some err) of
                  (r, m'', evs') \<Rightarrow>
                    (r, m'', evs @ Sleep (DEFAULT_CONNECT_RETRY_DELAYS_MS ! attempt) # evs')))
      else
        (Inl (wrapConnectionError m
                (case lastError of
                   Some err \<Rightarrow> err
                 | None \<Rightarrow> \<lparr> e_code = None, e_message = ''undefined'' \<rparr>)), m, []))"
  by pat_completeness auto
termination
  by (relation "measure (\<lambda>(m, script, attempt, lastError).
        Suc (length DEFAULT_CONNECT_RETRY_DELAYS_MS) - attempt)") auto

definition connectWithRetry ::
  "SSHConnectionManager \<Rightarrow> ConnectScript
     \<Rightarrow> (McpError + unit) \<times> SSHConnectionManager \<times> ConnectEvent list" where
  "connectWithRetry m script = connectWithRetry_from m script 0 None"

definition isConnected :: "SSHConnectionManager \<Rightarrow> bool" where
  "isConnected m \<longleftrightarrow> conn m = Some True"

definition connect ::
  "SSHConnectionManager \<Rightarrow> ConnectScript
     \<Rightarrow> (McpError + unit) \<times> SSHConnectionManager \<times> ConnectEvent list" where
  "connect m script =
     (if conn m \<noteq> None \<and> isConnected m then (Inr (), m, [])
      else connectWithRetry m script)"

subsection \<open>Executing a command\<close>

text \<open>
  \<open>execSshCommandWithConnection\<close> settles one promise from the events that reach it: the
  timer, the data of the elevated shell, or the data and the close of a one-shot
  channel. \<open>x_path\<close> says which handlers are installed.
\<close>

datatype ExecEvent =
    TimerFired
  | ShellData string
  | StdoutData string
  | StderrData string
  | ChannelClose int

datatype ExecPath = ElevatedShell | ExecChannel | NoHandlers

record ExecState =
  x_path :: ExecPath
  x_buffer :: string
  x_stdout :: string
  x_stderr :: string
  isResolved :: bool
  settled :: "(McpError + string) option"

text \<open>\<open>buffer.split('\n')\<close>.\<close>

fun splitOn :: "char \<Rightarrow> string \<Rightarrow> string list" where
  "splitOn sep [] = [[]]"
| "splitOn sep (c # cs) =
     (if c = sep then [] # splitOn sep cs
      else (case splitOn sep cs of
              [] \<Rightarrow> [[c]]
            | line # lines \<Rightarrow> (c # line) # lines))"

text \<open>The start of an execution. \<open>execError\<close> is the error \<open>conn.exec\<close> hands to its
  callback, if any; without a connection \<open>getConnection()\<close> throws inside the executor
  of the promise, which rejects it before the timer is set.\<close>

definition execStart :: "SSHConnectionManager \<Rightarrow> string option \<Rightarrow> ExecState" where
  "execStart m execError =
     (let target = formatTargetContext (sshConfig m);
          idle = \<lparr> x_path = NoHandlers, x_buffer = [], x_stdout = [], x_stderr = [],
                   isResolved = False, settled = None \<rparr>
      in if conn m = None
         then idle\<lparr>isResolved := True,
                settled := Some (Inl (McpError (''SSH connection not established (''
                                          @ target @ '')'')))\<rparr>
         else if suShell m \<noteq> None then idle\<lparr>x_path := ElevatedShell\<rparr>
         else (case execError of
                 Some message \<Rightarrow>
                   idle\<lparr>isResolved := True,
                     settled := Some (Inl (McpError (''SSH exec error ('' @ target @ ''): ''
                                               @ message)))\<rparr>
               | None \<Rightarrow> idle\<lparr>x_path := ExecChannel\<rparr>))"

definition execStep :: "string \<Rightarrow> nat \<Rightarrow> ExecState \<Rightarrow> ExecEvent \<Rightarrow> ExecState" where
  "execStep target timeoutMs st ev =
     (case ev of
        TimerFired \<Rightarrow>
          if \<not> isResolved st
          then st\<lparr>isResolved := True,
                 settled := Some (Inl (McpError (''Command execution timed out after ''
                                           @ numberToString timeoutMs @ ''ms ('' @ target @ '')'')))\<rparr>
          else st
      | ShellData text \<Rightarrow>
          if x_path st \<noteq> ElevatedShell then st
          else
            (let buffer = x_buffer st @ text
             in if \<not> includesStr buffer ''#'' then st\<lparr>x_buffer := buffer\<rparr>
                else if \<not> isResolved st
                then
                  (let lines = splitOn CHR 0x0A buffer;
                       output = join [CHR 0x0A] (butlast (drop 1 lines))
                   in st\<lparr>x_buffer := buffer, x_path := NoHandlers, isResolved := True,
                        settled := Some (Inr (output @ (if output \<noteq> [] then [CHR 0x0A] else [])))\<rparr>)
                else st\<lparr>x_buffer := buffer, x_path := NoHandlers\<rparr>)
      | StdoutData text \<Rightarrow>
          if x_path st \<noteq> ExecChannel then st else st\<lparr>x_stdout := x_stdout st @ text\<rparr>
      | StderrData text \<Rightarrow>
          if x_path st \<noteq> ExecChannel then st else st\<lparr>x_stderr := x_stderr st @ text\<rparr>
      | ChannelClose code \<Rightarrow>
          if x_path st \<noteq> ExecChannel then st
          else if isResolved st then st
          else if x_stderr st \<noteq> []
          then st\<lparr>isResolved := True,
                 settled := Some (Inl (McpError (''Error (code '' @ exitCodeToString code @ '') (''
                                           @ target @ ''):'' @ [CHR 0x0A] @ x_stderr st)))\<rparr>
          else st\<lparr>isResolved := True, settled := Some (Inr (x_stdout st))\<rparr>)"

text \<open>The promise after the events \<open>evs\<close>, in the order they arrive.\<close>

definition execSshCommandWithConnection ::
  "SSHConnectionManager \<Rightarrow> nat \<Rightarrow> string option \<Rightarrow> ExecEvent list \<Rightarrow> ExecState" where
  "execSshCommandWithConnection m timeoutMs execError evs =
     foldl (execStep (formatTargetContext (sshConfig m)) timeoutMs) (execStart m execError) evs"

section \<open>Observations on runs\<close>

text \<open>What the one-shot channel has written to stdout and to stderr during a list of
  events, and whether an event is the close of the channel.\<close>

definition stdoutOf :: "ExecEvent list \<Rightarrow> string" where
  "stdoutOf evs = concat (map (\<lambda>ev. case ev of StdoutData t \<Rightarrow> t | _ \<Rightarrow> []) evs)"

definition stderrOf :: "ExecEvent list \<Rightarrow> string" where
  "stderrOf evs = concat (map (\<lambda>ev. case ev of StderrData t \<Rightarrow> t | _ \<Rightarrow> []) evs)"

definition isClose :: "ExecEvent \<Rightarrow> bool" where
  "isClose ev = (case ev of ChannelClose _ \<Rightarrow> True | _ \<Rightarrow> False)"

text \<open>
  The manager as attempt \<open>k\<close> of a run from \<open>m\<close> finds it, the attempts before having
  failed; the error with which attempt \<open>k\<close> then fails, if it fails; and the events of
  attempt \<open>k\<close>.
\<close>

fun stateBefore :: "SSHConnectionManager \<Rightarrow> ConnectScript \<Rightarrow> nat \<Rightarrow> SSHConnectionManager" where
  "stateBefore m script 0 = m"
| "stateBefore m script (Suc k) = fst (snd (connectOnce (stateBefore m script k) script k))"

definition attemptFailure :: "SSHConnectionManager \<Rightarrow> ConnectScript \<Rightarrow> nat \<Rightarrow> ConnError option" where
  "attemptFailure m script k =
     (case fst (connectOnce (stateBefore m script k) script k) of
        Inl err \<Rightarrow> Some err
      | Inr _ \<Rightarrow> None)"

definition attemptEvents :: "SSHConnectionManager \<Rightarrow> ConnectScript \<Rightarrow> nat \<Rightarrow> ConnectEvent list" where
  "attemptEvents m script k = snd (snd (connectOnce (stateBefore m script k) script k))"

text \<open>The events of an elevation.\<close>

definition isElevationEvent :: "ConnectEvent \<Rightarrow> bool" where
  "isElevationEvent ev \<longleftrightarrow> ev = EnsureElevatedCalled \<or> ev = SuShellRequested"

text \<open>The attempt numbers and the sleeps of a run, in order.\<close>

definition attemptsOf :: "ConnectEvent list \<Rightarrow> nat list" where
  "attemptsOf evs = concat (map (\<lambda>ev. case ev of ConnectAttempt k \<Rightarrow> [k] | _ \<Rightarrow> []) evs)"

definition sleepsOf :: "ConnectEvent list \<Rightarrow> nat list" where
  "sleepsOf evs = concat (map (\<lambda>ev. case ev of Sleep ms \<Rightarrow> [ms] | _ \<Rightarrow> []) evs)"

text \<open>Whether a listed profile matches the query by a criterion that does not read its
  id, and whether it matches by every criterion but the exact id.\<close>

definition matchesBeyondId :: "string \<Rightarrow> ProfileSummary \<Rightarrow> bool" where
  "matchesBeyondId n p \<longleftrightarrow>
     includesStr (toLowerCase (s_host p)) n
   \<or> includesStr (toLowerCase (s_name p)) n
   \<or> list_ex (\<lambda>tag. includesStr tag n) (map toLowerCase (s_tags p))
   \<or> includesStr (toLowerCase (s_user p)) n
   \<or> includesStr (toLowerCase (s_note p)) n"

definition matchesAllButExactId :: "string \<Rightarrow> ProfileSummary \<Rightarrow> bool" where
  "matchesAllButExactId n q \<longleftrightarrow>
     includesStr (toLowerCase (s_id q)) n
   \<and> toLowerCase (s_host q) = n
   \<and> includesStr (toLowerCase (s_name q)) n
   \<and> list_ex (\<lambda>tag. includesStr tag n) (map toLowerCase (s_tags q))
   \<and> includesStr (toLowerCase (s_user q)) n
   \<and> includesStr (toLowerCase (s_note q)) n"

section \<open>Example configurations\<close>

text \<open>The three password profiles of the repository's delete test (alpha, beta, gamma),
  an empty environment, no key file, and a plain serialiser.\<close>

definition exRawProfile :: "string \<Rightarrow> string \<Rightarrow> RawProfile" where
  "exRawProfile pid h =
     \<lparr> r_id = pid, r_name = pid, r_host = h, r_port = None, r_user = ''root'',
       r_auth = PasswordAuth ''secret'', r_suPassword = None, r_sudoPassword = None,
       r_note = None, r_tags = None \<rparr>"

definition exProfile :: "string \<Rightarrow> string \<Rightarrow> ProfileDefinition" where
  "exProfile pid h =
     \<lparr> p_id = pid, p_name = pid, p_host = h, p_port = 22, p_user = ''root'',
       p_auth = PasswordAuth ''secret'', p_suPassword = None, p_sudoPassword = None,
       p_note = [], p_tags = [] \<rparr>"

definition exSerialize :: "RawConfig \<Rightarrow> string" where
  "exSerialize raw =
     ''activeProfile: '' @ raw_activeProfile raw @ '' profiles: ''
       @ join '','' (map r_id (raw_profiles raw))"

definition exWorld :: World where
  "exWorld =
     \<lparr> env = (\<lambda>_. None), keyFileAccessible = (\<lambda>_. False), serializeRawConfig = exSerialize,
       configFile = ''activeProfile: beta profiles: alpha,beta,gamma'',
       backupFiles = Map.empty \<rparr>"

definition exLoaded :: LoadedProfilesConfig where
  "exLoaded =
     \<lparr> config = \<lparr> activeProfile = ''beta'',
                  profiles = [exProfile ''alpha'' ''alpha.example.com'',
                              exProfile ''beta'' ''beta.example.com'',
                              exProfile ''gamma'' ''gamma.example.com''] \<rparr>,
       rawConfig = \<lparr> raw_version = 1, raw_activeProfile = ''beta'',
                     raw_profiles = [exRawProfile ''alpha'' ''alpha.example.com'',
                                     exRawProfile ''beta'' ''beta.example.com'',
                                     exRawProfile ''gamma'' ''gamma.example.com''] \<rparr> \<rparr>"

text \<open>The manager started with the override \<open>gamma\<close>: the persisted active profile is
  \<open>beta\<close>, the runtime one \<open>gamma\<close>.\<close>

definition exManager :: ProfileManager where
  "exManager =
     \<lparr> loadedConfig = Some exLoaded, activeProfileId = Some ''gamma'',
       profileOverride = Some ''gamma'', pendingDeletes = Map.empty \<rparr>"

text \<open>The same manager after \<open>prepareDeleteProfile gamma\<close> at time 0 gave the request
  \<open>req-1\<close>.\<close>

definition exPrepared :: ProfileManager where
  "exPrepared =
     exManager\<lparr>pendingDeletes :=
       [''req-1'' \<mapsto> \<lparr> requestId = ''req-1'', profileId = ''gamma'', backupPath = ''bak'',
                         createdAt = 0, expiresAt = 600000 \<rparr>]\<rparr>"

text \<open>Managers for the search: a listed profile with all the fields the search reads,
  and a manager holding a list of them.\<close>

definition exListed ::
  "string \<Rightarrow> string \<Rightarrow> string \<Rightarrow> string \<Rightarrow> string \<Rightarrow> string list \<Rightarrow> ProfileDefinition" where
  "exListed pid nm h u nt ts =
     \<lparr> p_id = pid, p_name = nm, p_host = h, p_port = 22, p_user = u,
       p_auth = PasswordAuth ''secret'', p_suPassword = None, p_sudoPassword = None,
       p_note = nt, p_tags = ts \<rparr>"

definition exManagerOf :: "ProfileDefinition list \<Rightarrow> string \<Rightarrow> ProfileManager" where
  "exManagerOf ps active =
     \<lparr> loadedConfig = Some \<lparr> config = \<lparr> activeProfile = active, profiles = ps \<rparr>,
                              rawConfig = \<lparr> raw_version = 1, raw_activeProfile = active,
                                            raw_profiles = [] \<rparr> \<rparr>,
       activeProfileId = Some active, profileOverride = None, pendingDeletes = Map.empty \<rparr>"

text \<open>The first profile mentions \<open>db\<close> only in its note, the second only in a tag.\<close>

definition exNoteThenTag :: ProfileManager where
  "exNoteThenTag = exManagerOf
     [exListed ''one'' ''one'' ''h1'' ''root'' ''db server'' [],
      exListed ''two'' ''two'' ''h2'' ''root'' [] [''db'']] ''one''"

text \<open>The first profile has the id \<open>db\<close> and nothing else of it; the second has \<open>db\<close>
  inside its id and as host, name, user, note and tag.\<close>

definition exExactThenBroad :: ProfileManager where
  "exExactThenBroad = exManagerOf
     [exListed ''db'' ''n'' ''h'' ''u'' [] [],
      exListed ''db2'' ''db'' ''db'' ''db'' ''db'' [''db'']] ''db''"

text \<open>Three matches of the query \<open>db\<close>: the first by its host, the second by its id,
  the third by a part of its id.\<close>

definition exExactAmongMatches :: ProfileManager where
  "exExactAmongMatches = exManagerOf
     [exListed ''x'' ''n'' ''db'' ''u'' [] [],
      exListed ''db'' ''n'' ''h'' ''u'' [] [],
      exListed ''mydb'' ''n'' ''h'' ''u'' [] []] ''x''"

text \<open>The input of the repository's failing create test: key authentication with a key
  file that does not exist.\<close>

definition exBrokenKeyInput :: ProfileCreateInput where
  "exBrokenKeyInput =
     \<lparr> i_id = ''broken-key-profile'', i_name = ''Broken Key'', i_host = ''broken.example.com'',
       i_port = None, i_user = ''root'', i_auth = KeyAuth ''./keys/not-exists'',
       i_suPassword = None, i_sudoPassword = None, i_note = None, i_tags = None,
       i_contextSummary = None, i_activate = Some True \<rparr>"

text \<open>A connected manager for the profile alpha, without an elevated shell and
  without a \<open>su\<close> promise.\<close>

definition exSsh :: SSHConnectionManager where
  "exSsh =
     \<lparr> sshConfig = \<lparr> c_profileId = Some ''alpha'', c_host = ''alpha.example.com'',
                     c_port = 22, c_username = ''root'', c_password = Some ''secret'',
                     c_privateKey = None, c_suPassword = None, c_sudoPassword = None \<rparr>,
       conn = Some True, suShell = None, suPromise = None, isElevated = False \<rparr>"

text \<open>The same manager without a connection, and with a \<open>su\<close> secret; a run in which the
  first attempt is refused and the second is denied by the server; a run in which the
  client is ready at once and the \<open>su\<close> dialogue fails, inside or outside the test
  environment.\<close>

definition exDown :: SSHConnectionManager where
  "exDown = exSsh\<lparr>conn := None\<rparr>"

definition exSuDown :: SSHConnectionManager where
  "exSuDown = exDown\<lparr>sshConfig := (sshConfig exDown)\<lparr>c_suPassword := Some ''root-secret''\<rparr>\<rparr>"

definition exRefusedThenDenied :: ConnectScript where
  "exRefusedThenDenied =
     \<lparr> clientOutcome = (\<lambda>k. if k = 0
          then ClientError \<lparr> e_code = Some ''ECONNREFUSED'',
                             e_message = ''connect ECONNREFUSED 127.0.0.1:22'' \<rparr>
          else ClientError \<lparr> e_code = None,
                             e_message = ''All configured authentication methods failed'' \<rparr>),
       whileElevating = (\<lambda>k. PromiseSettles (SuRejected (McpError ''su authentication failed''))),
       endedBefore = (\<lambda>k. None),
       testEnv = False \<rparr>"

definition exReadySuRejected :: "bool \<Rightarrow> ConnectScript" where
  "exReadySuRejected test =
     \<lparr> clientOutcome = (\<lambda>k. ClientReady),
       whileElevating = (\<lambda>k. PromiseSettles (SuRejected (McpError ''su authentication failed''))),
       endedBefore = (\<lambda>k. None),
       testEnv = test \<rparr>"

text \<open>The manager \<open>exSuDown\<close> after \<open>ensureElevated()\<close> was called on it: there was no
  connection, the executor threw, and the rejected promise is still held.\<close>

definition exStale :: SSHConnectionManager where
  "exStale = fst (snd (ensureElevated exSuDown))"

text \<open>A run in which every client is ready; the first one reports a reset while the
  elevation is awaited, its dialogue ends with the close of the shell before the second
  client is ready, and the second dialogue reaches the root prompt.\<close>

definition exResetWhileElevating :: ConnectScript where
  "exResetWhileElevating =
     \<lparr> clientOutcome = (\<lambda>k. ClientReady),
       whileElevating = (\<lambda>k. if k = 0
          then ClientErrorFirst \<lparr> e_code = Some ''ECONNRESET'', e_message = ''read ECONNRESET'' \<rparr>
          else PromiseSettles (SuElevated 7)),
       endedBefore = (\<lambda>k. if k = 1
          then Some (SuRejected (McpError ''su shell closed before elevation completed''))
          else None),
       testEnv = False \<rparr>"

text \<open>A run whose first client fails with a timeout code and a message that carries an
  authentication-failure signature.\<close>

definition exAuthTimedOut :: ConnectScript where
  "exAuthTimedOut =
     \<lparr> clientOutcome = (\<lambda>k. ClientError \<lparr> e_code = Some ''ETIMEDOUT'',
                                           e_message = ''Authentication timed out'' \<rparr>),
       whileElevating = (\<lambda>k. PromiseSettles (SuRejected (McpError ''su authentication failed''))),
       endedBefore = (\<lambda>k. None),
       testEnv = False \<rparr>"

section \<open>Command execution on the one-shot channel\<close>

lemma execStep_resolved:
  "isResolved st \<Longrightarrow>
   isResolved (execStep tg t st ev) \<and> settled (execStep tg t st ev) = settled st"
  by (cases ev) (auto simp: execStep_def Let_def)

lemma foldl_execStep_resolved:
  "isResolved st \<Longrightarrow> settled (foldl (execStep tg t) st evs) = settled st"
  by (induction evs arbitrary: st) (auto simp: execStep_resolved)

text \<open>While the channel has not closed, its handlers stay installed, the two buffers
  grow by what arrives, and only the timer can have settled the promise.\<close>

lemma channel_open_invariant:
  assumes "x_path st = ExecChannel" and "\<not> list_ex isClose evs"
  shows "x_path (foldl (execStep tg t) st evs) = ExecChannel
       \<and> x_stdout (foldl (execStep tg t) st evs) = x_stdout st @ stdoutOf evs
       \<and> x_stderr (foldl (execStep tg t) st evs) = x_stderr st @ stderrOf evs
       \<and> (isResolved (foldl (execStep tg t) st evs) \<longleftrightarrow> isResolved st \<or> TimerFired \<in> set evs)
       \<and> ((isResolved st \<longrightarrow> (\<exists>e. settled st = Some (Inl e))) \<longrightarrow>
            isResolved (foldl (execStep tg t) st evs) \<longrightarrow>
            (\<exists>e. settled (foldl (execStep tg t) st evs) = Some (Inl e)))"
  using assms
proof (induction evs arbitrary: st)
  case Nil
  then show ?case by (simp add: stdoutOf_def stderrOf_def)
next
  case (Cons ev evs)
  have p: "x_path (execStep tg t st ev) = ExecChannel"
    using Cons.prems by (cases ev) (auto simp: execStep_def isClose_def)
  have c: "\<not> list_ex isClose evs" using Cons.prems by simp
  note ih = Cons.IH [OF p c]
  show ?case
    using Cons.prems ih
    by (cases ev) (auto simp: execStep_def isClose_def stdoutOf_def stderrOf_def)
qed

lemma execStart_channel:
  "conn m \<noteq> None \<Longrightarrow> suShell m = None \<Longrightarrow>
   execStart m None = \<lparr> x_path = ExecChannel, x_buffer = [], x_stdout = [], x_stderr = [],
                        isResolved = False, settled = None \<rparr>"
  by (auto simp: execStart_def Let_def)

text \<open>
  C5. On the default path (a connection, no elevated shell, the channel opened), an
  execution whose channel closes after any non-empty stderr output rejects, whatever the
  exit code \<open>code\<close> and whatever was written to stdout; the events \<open>evs\<close> before the close
  may hold stdout data and the timer, and nothing after the close changes the outcome.
\<close>

theorem C5_stderr_rejects:
  assumes "conn m \<noteq> None" and "suShell m = None"
    and "\<not> list_ex isClose evs" and "stderrOf evs \<noteq> []"
  shows "\<exists>e. settled (execSshCommandWithConnection m timeoutMs None
                 (evs @ ChannelClose code # rest)) = Some (Inl e)"
proof -
  let ?step = "execStep (formatTargetContext (sshConfig m)) timeoutMs"
  let ?st = "foldl ?step (execStart m None) evs"
  have start: "x_path (execStart m None) = ExecChannel" "\<not> isResolved (execStart m None)"
    "x_stderr (execStart m None) = []"
    using assms(1,2) by (simp_all add: execStart_channel)
  from channel_open_invariant [OF start(1) assms(3), of "formatTargetContext (sshConfig m)" timeoutMs]
  have inv: "x_path ?st = ExecChannel" "x_stderr ?st = stderrOf evs"
    "isResolved ?st \<longrightarrow> (\<exists>e. settled ?st = Some (Inl e))"
    using start by auto
  have closed: "isResolved (?step ?st (ChannelClose code))
      \<and> (\<exists>e. settled (?step ?st (ChannelClose code)) = Some (Inl e))"
    using inv assms(4) by (auto simp: execStep_def)
  then show ?thesis
    by (simp add: execSshCommandWithConnection_def foldl_execStep_resolved)
qed

theorem C5_stderr_rejects_witness:
  "\<exists>e. settled (execSshCommandWithConnection exSsh 5000 None
          ([StdoutData ''out'', StderrData ''warn''] @ ChannelClose 0 # [])) = Some (Inl e)"
  by (rule C5_stderr_rejects) (simp_all add: exSsh_def isClose_def stderrOf_def)

text \<open>
  C10. On the default path, an execution that is still pending when its channel closes
  (the timer has not fired before) with empty stderr resolves with the captured stdout,
  for every exit code \<open>code\<close>, zero or not: the exit code is not looked at.
\<close>

theorem C10_exit_code_ignored:
  assumes "conn m \<noteq> None" and "suShell m = None"
    and "\<not> list_ex isClose evs" and "TimerFired \<notin> set evs" and "stderrOf evs = []"
  shows "settled (execSshCommandWithConnection m timeoutMs None
                 (evs @ ChannelClose code # rest)) = Some (Inr (stdoutOf evs))"
proof -
  let ?step = "execStep (formatTargetContext (sshConfig m)) timeoutMs"
  let ?st = "foldl ?step (execStart m None) evs"
  have start: "x_path (execStart m None) = ExecChannel" "\<not> isResolved (execStart m None)"
    "x_stderr (execStart m None) = []" "x_stdout (execStart m None) = []"
    using assms(1,2) by (simp_all add: execStart_channel)
  from channel_open_invariant [OF start(1) assms(3), of "formatTargetContext (sshConfig m)" timeoutMs]
  have inv: "x_path ?st = ExecChannel" "x_stderr ?st = []" "x_stdout ?st = stdoutOf evs"
    "\<not> isResolved ?st"
    using start assms(4,5) by auto
  have closed: "isResolved (?step ?st (ChannelClose code))
      \<and> settled (?step ?st (ChannelClose code)) = Some (Inr (stdoutOf evs))"
    using inv by (auto simp: execStep_def)
  then show ?thesis
    by (simp add: execSshCommandWithConnection_def foldl_execStep_resolved)
qed

theorem C10_exit_code_ignored_witness:
  "settled (execSshCommandWithConnection exSsh 5000 None
     ([StdoutData ''out''] @ ChannelClose 3 # [])) = Some (Inr ''out'')"
  using C10_exit_code_ignored [of exSsh "[StdoutData ''out'']" 5000 3 "[]"]
  by (simp add: exSsh_def isClose_def stderrOf_def stdoutOf_def)

section \<open>Search\<close>

lemma insort_key_map:
  "insort_key g (h x) (map h xs) = map h (insort_key (\<lambda>y. g (h y)) x xs)"
  by (induction xs) auto

lemma sort_key_map:
  "sort_key g (map h xs) = map h (sort_key (\<lambda>y. g (h y)) xs)"
  by (induction xs) (auto simp: insort_key_map)

text \<open>On the scoring path the result is the listing, filtered by a positive score,
  stably sorted by descending score, each entry paired with its score.\<close>

lemma findProfiles_scored:
  assumes "listProfiles m = Inr all" and "toLowerCase (trim query) \<noteq> []"
  shows "findProfiles m query =
           Inr (map (\<lambda>p. (p, Some (matchScore (toLowerCase (trim query)) p)))
                  (sort_key (\<lambda>p. - matchScore (toLowerCase (trim query)) p)
                     (filter (\<lambda>p. 0 < matchScore (toLowerCase (trim query)) p) all)))"
  using assms
  by (simp add: findProfiles_def Let_def filter_map sort_key_map o_def)

lemma startsWith_refl: "startsWith s s"
  by (induction s) auto

lemma includesStr_refl: "includesStr s s"
  by (cases s) (auto simp: startsWith_refl)

lemma matchScore_weights:
  "matchScore n p =
     100 * of_bool (toLowerCase (s_id p) = n)
   + 50 * of_bool (includesStr (toLowerCase (s_id p)) n)
   + 40 * of_bool (toLowerCase (s_host p) = n)
   + 20 * of_bool (includesStr (toLowerCase (s_host p)) n)
   + 15 * of_bool (includesStr (toLowerCase (s_name p)) n)
   + 12 * of_bool (list_ex (\<lambda>tag. includesStr tag n) (map toLowerCase (s_tags p)))
   + 10 * of_bool (includesStr (toLowerCase (s_user p)) n)
   + 8 * of_bool (includesStr (toLowerCase (s_note p)) n)"
  by (simp add: matchScore_def Let_def)

lemma exact_id_score:
  assumes "toLowerCase (s_id p) = n"
  shows "150 \<le> matchScore n p" and "matchScore n p = 150 \<longleftrightarrow> \<not> matchesBeyondId n p"
    and "matchesBeyondId n p \<Longrightarrow> 158 \<le> matchScore n p"
proof -
  have own: "includesStr (toLowerCase (s_id p)) n" using assms by (simp add: includesStr_refl)
  have host: "toLowerCase (s_host p) = n \<Longrightarrow> includesStr (toLowerCase (s_host p)) n"
    by (simp add: includesStr_refl)
  show "150 \<le> matchScore n p"
    using assms own by (simp add: matchScore_weights)
  show "matchScore n p = 150 \<longleftrightarrow> \<not> matchesBeyondId n p"
    using assms own host by (auto simp: matchScore_weights matchesBeyondId_def of_bool_def split: if_splits)
  show "matchesBeyondId n p \<Longrightarrow> 158 \<le> matchScore n p"
    using assms own by (auto simp: matchScore_weights matchesBeyondId_def of_bool_def)
qed

lemma other_id_score:
  assumes "toLowerCase (s_id q) \<noteq> n"
  shows "matchScore n q \<le> 155" and "matchScore n q = 155 \<longleftrightarrow> matchesAllButExactId n q"
    and "\<not> matchesAllButExactId n q \<Longrightarrow> matchScore n q \<le> 147"
proof -
  have host: "toLowerCase (s_host q) = n \<Longrightarrow> includesStr (toLowerCase (s_host q)) n"
    by (simp add: includesStr_refl)
  show "matchScore n q \<le> 155"
    using assms by (simp add: matchScore_weights of_bool_def)
  show "matchScore n q = 155 \<longleftrightarrow> matchesAllButExactId n q"
    using assms host by (auto simp: matchScore_weights matchesAllButExactId_def of_bool_def split: if_splits)
  show "\<not> matchesAllButExactId n q \<Longrightarrow> matchScore n q \<le> 147"
    using assms by (auto simp: matchScore_weights matchesAllButExactId_def of_bool_def)
qed

text \<open>The head of a stable descending sort.\<close>

lemma ranked_head:
  fixes f :: "'a \<Rightarrow> int"
  assumes "xs = before @ p # after"
    and "\<forall>q \<in> set before. f q < f p" and "\<forall>q \<in> set after. f q \<le> f p"
  shows "\<exists>rest. sort_key (\<lambda>x. - f x) xs = p # rest"
proof -
  let ?g = "\<lambda>x. - f x"
  let ?ranked = "sort_key ?g xs"
  have p_in: "p \<in> set ?ranked" using assms(1) by simp
  then obtain top rest where ranked: "?ranked = top # rest"
    by (cases ?ranked) auto
  have "sorted (map ?g ?ranked)" by (rule sorted_sort_key)
  then have top_max: "\<forall>q \<in> set ?ranked. f q \<le> f top"
    unfolding ranked by auto
  have "top \<in> set ?ranked" unfolding ranked by simp
  then have "top \<in> set xs" by simp
  then have "f top \<le> f p" using assms by auto
  moreover have "f p \<le> f top" using top_max p_in by blast
  ultimately have eq: "f top = f p" by simp
  have "filter (\<lambda>x. ?g x = ?g p) ?ranked = filter (\<lambda>x. ?g x = ?g p) xs"
    by (rule sort_key_stable)
  moreover have "filter (\<lambda>x. ?g x = ?g p) ?ranked = top # filter (\<lambda>x. ?g x = ?g p) rest"
    unfolding ranked using eq by simp
  moreover have "filter (\<lambda>x. ?g x = ?g p) before = []"
    using assms(2) by (auto simp: filter_empty_conv)
  then have "filter (\<lambda>x. ?g x = ?g p) xs = p # filter (\<lambda>x. ?g x = ?g p) after"
    unfolding assms(1) by simp
  ultimately have "top = p" by simp
  then show ?thesis using ranked by blast
qed

lemma ranked_head_other:
  fixes f :: "'a \<Rightarrow> int"
  assumes "xs = before @ p # after"
    and "(\<exists>q \<in> set before. f p \<le> f q) \<or> (\<exists>q \<in> set after. f p < f q)"
  shows "\<exists>top rest. sort_key (\<lambda>x. - f x) xs = top # rest \<and> top \<in> set xs
           \<and> (f p < f top \<or> (f top = f p \<and> top \<in> set before))"
proof -
  let ?g = "\<lambda>x. - f x"
  let ?ranked = "sort_key ?g xs"
  have p_in: "p \<in> set ?ranked" using assms(1) by simp
  then obtain top rest where ranked: "?ranked = top # rest"
    by (cases ?ranked) auto
  have "sorted (map ?g ?ranked)" by (rule sorted_sort_key)
  then have top_max: "\<forall>q \<in> set ?ranked. f q \<le> f top"
    unfolding ranked by auto
  have "top \<in> set ?ranked" unfolding ranked by simp
  then have top_in: "top \<in> set xs" by simp
  have le: "f p \<le> f top" using top_max p_in by blast
  show ?thesis
  proof (cases "f p < f top")
    case True
    then show ?thesis using ranked top_in by blast
  next
    case False
    then have eq: "f top = f p" using le by simp
    have no_more: "\<forall>q \<in> set xs. f q \<le> f p" using top_max eq by simp
    then have "\<not> (\<exists>q \<in> set after. f p < f q)" unfolding assms(1) by force
    then obtain q where q: "q \<in> set before" "f p \<le> f q" using assms(2) by blast
    then have "f q = f p" using no_more unfolding assms(1) by force
    then have ne: "filter (\<lambda>x. ?g x = ?g p) before \<noteq> []"
      using q(1) by (auto simp: filter_empty_conv)
    have "filter (\<lambda>x. ?g x = ?g p) ?ranked = filter (\<lambda>x. ?g x = ?g p) xs"
      by (rule sort_key_stable)
    moreover have "filter (\<lambda>x. ?g x = ?g p) ?ranked = top # filter (\<lambda>x. ?g x = ?g p) rest"
      unfolding ranked using eq by simp
    ultimately have "top = hd (filter (\<lambda>x. ?g x = ?g p) xs)" by simp
    also have "\<dots> = hd (filter (\<lambda>x. ?g x = ?g p) before)"
      unfolding assms(1) using ne by simp
    also have "\<dots> \<in> set (filter (\<lambda>x. ?g x = ?g p) before)"
      using ne by (rule hd_in_set)
    finally have "top \<in> set before" by simp
    then show ?thesis using ranked top_in eq by blast
  qed
qed

text \<open>
  C3, as the code has it. For a query whose normalised form \<open>n\<close> (trimmed, lower case) is
  not empty: every returned entry carries its score, which is positive; the returned
  profiles are exactly the listed ones with a positive score; they are in descending
  order of score; entries of equal score keep the order of the listing; and the score
  is the sum of the weights 100 (exact id), 50 (id substring), 40 (exact host), 20 (host
  substring), 15 (name substring), 12 (tag substring), 10 (user substring) and 8 (note
  substring) of the criteria that hold. The weights descend in this order: the tag
  weight lies between the name weight and the user weight, not below the note weight.
\<close>

theorem C3_scored_search:
  assumes "listProfiles m = Inr all" and "toLowerCase (trim query) = n" and "n \<noteq> []"
  shows "\<exists>found. findProfiles m query = Inr found
     \<and> (\<forall>entry \<in> set found.
           snd entry = Some (matchScore n (fst entry)) \<and> 0 < matchScore n (fst entry))
     \<and> set (map fst found) = {p \<in> set all. 0 < matchScore n p}
     \<and> sorted (map (\<lambda>p. - matchScore n p) (map fst found))
     \<and> (\<forall>k. filter (\<lambda>p. matchScore n p = k) (map fst found)
            = filter (\<lambda>p. matchScore n p = k) (filter (\<lambda>p. 0 < matchScore n p) all))
     \<and> (\<forall>p. matchScore n p =
           100 * of_bool (toLowerCase (s_id p) = n)
         + 50 * of_bool (includesStr (toLowerCase (s_id p)) n)
         + 40 * of_bool (toLowerCase (s_host p) = n)
         + 20 * of_bool (includesStr (toLowerCase (s_host p)) n)
         + 15 * of_bool (includesStr (toLowerCase (s_name p)) n)
         + 12 * of_bool (list_ex (\<lambda>tag. includesStr tag n) (map toLowerCase (s_tags p)))
         + 10 * of_bool (includesStr (toLowerCase (s_user p)) n)
         + 8 * of_bool (includesStr (toLowerCase (s_note p)) n))"
proof -
  let ?f = "matchScore n"
  let ?ranked = "sort_key (\<lambda>p. - ?f p) (filter (\<lambda>p. 0 < ?f p) all)"
  let ?found = "map (\<lambda>p. (p, Some (?f p))) ?ranked"
  have res: "findProfiles m query = Inr ?found"
    using findProfiles_scored [of m all query] assms by simp
  have fst_found: "map fst ?found = ?ranked"
    by (simp add: o_def)
  have carries: "\<forall>entry \<in> set ?found. snd entry = Some (?f (fst entry)) \<and> 0 < ?f (fst entry)"
    by auto
  have members: "set (map fst ?found) = {p \<in> set all. 0 < ?f p}"
    unfolding fst_found by auto
  have descending: "sorted (map (\<lambda>p. - ?f p) (map fst ?found))"
    unfolding fst_found by (rule sorted_sort_key)
  have stable: "\<forall>k. filter (\<lambda>p. ?f p = k) (map fst ?found)
            = filter (\<lambda>p. ?f p = k) (filter (\<lambda>p. 0 < ?f p) all)"
  proof
    fix k
    have "filter (\<lambda>p. - ?f p = - k) ?ranked
            = filter (\<lambda>p. - ?f p = - k) (filter (\<lambda>p. 0 < ?f p) all)"
      by (rule sort_key_stable)
    then show "filter (\<lambda>p. ?f p = k) (map fst ?found)
            = filter (\<lambda>p. ?f p = k) (filter (\<lambda>p. 0 < ?f p) all)"
      unfolding fst_found by simp
  qed
  from res carries members descending stable matchScore_weights
  show ?thesis by blast
qed

theorem C3_scored_search_witness:
  "\<exists>found. findProfiles exNoteThenTag ''DB '' = Inr found
     \<and> (\<forall>entry \<in> set found.
           snd entry = Some (matchScore ''db'' (fst entry)) \<and> 0 < matchScore ''db'' (fst entry))
     \<and> sorted (map (\<lambda>p. - matchScore ''db'' p) (map fst found))"
proof -
  have h1: "listProfiles exNoteThenTag = Inr (map (\<lambda>p. profileSummary p ''one'')
         [exListed ''one'' ''one'' ''h1'' ''root'' ''db server'' [],
          exListed ''two'' ''two'' ''h2'' ''root'' [] [''db'']])"
    by (simp add: listProfiles_def ensureLoaded_def exNoteThenTag_def exManagerOf_def)
  have h2: "toLowerCase (trim ''DB '') = ''db''" by code_simp
  have h3: "''db'' \<noteq> []" by simp
  from C3_scored_search [OF h1 h2 h3] show ?thesis by blast
qed

text \<open>C3 as the claim has it puts the tag weight last, below the note weight. A profile
  matching only by a tag scores 12, one matching only by its note scores 8, and the
  search ranks the tag match first although the note match is listed first.\<close>

theorem C3_tag_outranks_note:
  "map (\<lambda>entry. (s_id (fst entry), s_note (fst entry), s_tags (fst entry), snd entry))
       (projr (findProfiles exNoteThenTag ''db''))
     = [(''two'', [], [''db''], Some 12), (''one'', ''db server'', [], Some 8)]"
  by code_simp

text \<open>
  C8, as the code has it. A query that is blank after trimming returns every profile of
  the listing, in its order and without a score. Let \<open>n\<close>, the normalised query, be the
  lower-cased id of a profile \<open>p\<close>. Then \<open>p\<close> scores at least 150, and exactly 150 when it
  matches by nothing but its id; a profile with another lower-cased id scores at most
  155, exactly 155 when it matches by every criterion but the exact id, and at most 147
  otherwise. If \<open>n\<close> is not empty, \<open>p\<close> is the first entry returned when every listed
  profile with the same lower-cased id scores less, or as much and is listed behind
  \<open>p\<close>, and no listed profile with another id matches by every other criterion while
  \<open>p\<close> matches by its id alone. When one of these conditions fails, the first entry
  returned scores more than \<open>p\<close>, or as much and is listed before it.
\<close>

theorem C8_blank_or_exact_id:
  assumes "listProfiles m = Inr all" and "toLowerCase (trim query) = n"
  shows "(n = [] \<longrightarrow> findProfiles m query = Inr (map (\<lambda>p. (p, None)) all))
     \<and> (\<forall>p. toLowerCase (s_id p) = n \<longrightarrow>
           150 \<le> matchScore n p \<and> (matchScore n p = 150 \<longleftrightarrow> \<not> matchesBeyondId n p))
     \<and> (\<forall>q. toLowerCase (s_id q) \<noteq> n \<longrightarrow>
           matchScore n q \<le> 155 \<and> (matchScore n q = 155 \<longleftrightarrow> matchesAllButExactId n q)
           \<and> (\<not> matchesAllButExactId n q \<longrightarrow> matchScore n q \<le> 147))
     \<and> (\<forall>before p after.
           all = before @ p # after \<and> n \<noteq> [] \<and> toLowerCase (s_id p) = n
           \<and> (\<forall>q \<in> set before.
                  if toLowerCase (s_id q) = n then matchScore n q < matchScore n p
                  else matchesBeyondId n p \<or> \<not> matchesAllButExactId n q)
           \<and> (\<forall>q \<in> set after.
                  if toLowerCase (s_id q) = n then matchScore n q \<le> matchScore n p
                  else matchesBeyondId n p \<or> \<not> matchesAllButExactId n q)
           \<longrightarrow> (\<exists>others. findProfiles m query = Inr ((p, Some (matchScore n p)) # others)))
     \<and> (\<forall>before p after.
           all = before @ p # after \<and> n \<noteq> [] \<and> toLowerCase (s_id p) = n
           \<and> ((\<exists>q \<in> set before.
                   if toLowerCase (s_id q) = n then matchScore n p \<le> matchScore n q
                   else \<not> matchesBeyondId n p \<and> matchesAllButExactId n q)
              \<or> (\<exists>q \<in> set after.
                   if toLowerCase (s_id q) = n then matchScore n p < matchScore n q
                   else \<not> matchesBeyondId n p \<and> matchesAllButExactId n q))
           \<longrightarrow> (\<exists>top others.
                  findProfiles m query = Inr ((top, Some (matchScore n top)) # others)
                  \<and> top \<in> set all
                  \<and> (matchScore n p < matchScore n top
                       \<or> (matchScore n top = matchScore n p \<and> top \<in> set before))))"
proof -
  let ?f = "matchScore n"
  have blank: "n = [] \<longrightarrow> findProfiles m query = Inr (map (\<lambda>p. (p, None)) all)"
    using assms by (simp add: findProfiles_def)
  have exact: "\<forall>p. toLowerCase (s_id p) = n \<longrightarrow>
           150 \<le> ?f p \<and> (?f p = 150 \<longleftrightarrow> \<not> matchesBeyondId n p)"
    using exact_id_score(1,2) by blast
  have other: "\<forall>q. toLowerCase (s_id q) \<noteq> n \<longrightarrow>
           ?f q \<le> 155 \<and> (?f q = 155 \<longleftrightarrow> matchesAllButExactId n q)
           \<and> (\<not> matchesAllButExactId n q \<longrightarrow> ?f q \<le> 147)"
    using other_id_score by blast
  have below: "?f q < ?f p"
    if "toLowerCase (s_id p) = n" "toLowerCase (s_id q) \<noteq> n"
       "matchesBeyondId n p \<or> \<not> matchesAllButExactId n q" for p q
  proof -
    from that(3) show ?thesis
    proof
      assume "matchesBeyondId n p"
      then have "158 \<le> ?f p" using that(1) by (rule exact_id_score(3) [rotated])
      moreover have "?f q \<le> 155" using that(2) by (rule other_id_score(1))
      ultimately show ?thesis by simp
    next
      assume "\<not> matchesAllButExactId n q"
      then have "?f q \<le> 147" using that(2) by (rule other_id_score(3) [rotated])
      moreover have "150 \<le> ?f p" using that(1) by (rule exact_id_score(1))
      ultimately show ?thesis by simp
    qed
  qed
  have above: "?f p < ?f q"
    if "toLowerCase (s_id p) = n" "toLowerCase (s_id q) \<noteq> n"
       "\<not> matchesBeyondId n p" "matchesAllButExactId n q" for p q
  proof -
    have "?f p = 150" using exact_id_score(2) [OF that(1)] that(3) by simp
    moreover have "?f q = 155" using other_id_score(2) [OF that(2)] that(4) by simp
    ultimately show ?thesis by simp
  qed
  have first: "\<forall>before p after.
           all = before @ p # after \<and> n \<noteq> [] \<and> toLowerCase (s_id p) = n
           \<and> (\<forall>q \<in> set before.
                  if toLowerCase (s_id q) = n then ?f q < ?f p
                  else matchesBeyondId n p \<or> \<not> matchesAllButExactId n q)
           \<and> (\<forall>q \<in> set after.
                  if toLowerCase (s_id q) = n then ?f q \<le> ?f p
                  else matchesBeyondId n p \<or> \<not> matchesAllButExactId n q)
           \<longrightarrow> (\<exists>others. findProfiles m query = Inr ((p, Some (?f p)) # others))"
  proof (intro allI impI)
    fix before p after
    assume h: "all = before @ p # after \<and> n \<noteq> [] \<and> toLowerCase (s_id p) = n
           \<and> (\<forall>q \<in> set before.
                  if toLowerCase (s_id q) = n then ?f q < ?f p
                  else matchesBeyondId n p \<or> \<not> matchesAllButExactId n q)
           \<and> (\<forall>q \<in> set after.
                  if toLowerCase (s_id q) = n then ?f q \<le> ?f p
                  else matchesBeyondId n p \<or> \<not> matchesAllButExactId n q)"
    then have parts: "all = before @ p # after" and query: "n \<noteq> []"
      and own: "toLowerCase (s_id p) = n" by simp_all
    have score_p: "150 \<le> ?f p" using own by (rule exact_id_score(1))
    have earlier: "\<forall>q \<in> set before. ?f q < ?f p"
    proof
      fix q assume "q \<in> set before"
      then have "if toLowerCase (s_id q) = n then ?f q < ?f p
                  else matchesBeyondId n p \<or> \<not> matchesAllButExactId n q"
        using h by blast
      then show "?f q < ?f p" using below [OF own, of q] by (auto split: if_splits)
    qed
    have later: "\<forall>q \<in> set after. ?f q \<le> ?f p"
    proof
      fix q assume "q \<in> set after"
      then have "if toLowerCase (s_id q) = n then ?f q \<le> ?f p
                  else matchesBeyondId n p \<or> \<not> matchesAllButExactId n q"
        using h by blast
      then show "?f q \<le> ?f p" using below [OF own, of q] by (auto split: if_splits)
    qed
    let ?xs = "filter (\<lambda>p. 0 < ?f p) all"
    have split: "?xs = filter (\<lambda>p. 0 < ?f p) before @ p # filter (\<lambda>p. 0 < ?f p) after"
      unfolding parts using score_p by simp
    have "\<exists>rest. sort_key (\<lambda>p. - ?f p) ?xs = p # rest"
      by (rule ranked_head [OF split]) (use earlier later in auto)
    then obtain rest where "sort_key (\<lambda>p. - ?f p) ?xs = p # rest" by blast
    then have "findProfiles m query = Inr ((p, Some (?f p)) # map (\<lambda>p. (p, Some (?f p))) rest)"
      using findProfiles_scored [of m all query] assms query by simp
    then show "\<exists>others. findProfiles m query = Inr ((p, Some (?f p)) # others)" by blast
  qed
  have outranked: "\<forall>before p after.
           all = before @ p # after \<and> n \<noteq> [] \<and> toLowerCase (s_id p) = n
           \<and> ((\<exists>q \<in> set before.
                   if toLowerCase (s_id q) = n then ?f p \<le> ?f q
                   else \<not> matchesBeyondId n p \<and> matchesAllButExactId n q)
              \<or> (\<exists>q \<in> set after.
                   if toLowerCase (s_id q) = n then ?f p < ?f q
                   else \<not> matchesBeyondId n p \<and> matchesAllButExactId n q))
           \<longrightarrow> (\<exists>top others.
                  findProfiles m query = Inr ((top, Some (?f top)) # others)
                  \<and> top \<in> set all
                  \<and> (?f p < ?f top \<or> (?f top = ?f p \<and> top \<in> set before)))"
  proof (intro allI impI)
    fix before p after
    assume h: "all = before @ p # after \<and> n \<noteq> [] \<and> toLowerCase (s_id p) = n
           \<and> ((\<exists>q \<in> set before.
                   if toLowerCase (s_id q) = n then ?f p \<le> ?f q
                   else \<not> matchesBeyondId n p \<and> matchesAllButExactId n q)
              \<or> (\<exists>q \<in> set after.
                   if toLowerCase (s_id q) = n then ?f p < ?f q
                   else \<not> matchesBeyondId n p \<and> matchesAllButExactId n q))"
    then have parts: "all = before @ p # after" and query: "n \<noteq> []"
      and own: "toLowerCase (s_id p) = n" by simp_all
    have score_p: "150 \<le> ?f p" using own by (rule exact_id_score(1))
    let ?xs = "filter (\<lambda>p. 0 < ?f p) all"
    let ?before = "filter (\<lambda>p. 0 < ?f p) before"
    let ?after = "filter (\<lambda>p. 0 < ?f p) after"
    have split: "?xs = ?before @ p # ?after"
      unfolding parts using score_p by simp
    from h have "(\<exists>q \<in> set before.
                   if toLowerCase (s_id q) = n then ?f p \<le> ?f q
                   else \<not> matchesBeyondId n p \<and> matchesAllButExactId n q)
              \<or> (\<exists>q \<in> set after.
                   if toLowerCase (s_id q) = n then ?f p < ?f q
                   else \<not> matchesBeyondId n p \<and> matchesAllButExactId n q)"
      by simp
    then have "(\<exists>q \<in> set ?before. ?f p \<le> ?f q) \<or> (\<exists>q \<in> set ?after. ?f p < ?f q)"
    proof
      assume "\<exists>q \<in> set before.
                   if toLowerCase (s_id q) = n then ?f p \<le> ?f q
                   else \<not> matchesBeyondId n p \<and> matchesAllButExactId n q"
      then obtain q where q: "q \<in> set before"
         "if toLowerCase (s_id q) = n then ?f p \<le> ?f q
          else \<not> matchesBeyondId n p \<and> matchesAllButExactId n q" by blast
      then have "?f p \<le> ?f q" using above [OF own, of q] by (auto split: if_splits)
      then have "q \<in> set ?before \<and> ?f p \<le> ?f q" using q(1) score_p by simp
      then show ?thesis by blast
    next
      assume "\<exists>q \<in> set after.
                   if toLowerCase (s_id q) = n then ?f p < ?f q
                   else \<not> matchesBeyondId n p \<and> matchesAllButExactId n q"
      then obtain q where q: "q \<in> set after"
         "if toLowerCase (s_id q) = n then ?f p < ?f q
          else \<not> matchesBeyondId n p \<and> matchesAllButExactId n q" by blast
      then have "?f p < ?f q" using above [OF own, of q] by (auto split: if_splits)
      then have "q \<in> set ?after \<and> ?f p < ?f q" using q(1) score_p by simp
      then show ?thesis by blast
    qed
    from ranked_head_other [OF split this]
    obtain top rest where top: "sort_key (\<lambda>p. - ?f p) ?xs = top # rest" "top \<in> set ?xs"
        "?f p < ?f top \<or> (?f top = ?f p \<and> top \<in> set ?before)"
      by blast
    have "findProfiles m query = Inr ((top, Some (?f top)) # map (\<lambda>p. (p, Some (?f p))) rest)"
      using findProfiles_scored [of m all query] assms query top(1) by simp
    moreover have "top \<in> set all" using top(2) by simp
    moreover have "?f p < ?f top \<or> (?f top = ?f p \<and> top \<in> set before)" using top(3) by auto
    ultimately show "\<exists>top others.
                  findProfiles m query = Inr ((top, Some (?f top)) # others)
                  \<and> top \<in> set all
                  \<and> (?f p < ?f top \<or> (?f top = ?f p \<and> top \<in> set before))"
      by blast
  qed
  show ?thesis by (intro conjI blank exact other first outranked)
qed

theorem C8_blank_or_exact_id_witness:
  "findProfiles exExactAmongMatches ''  '' =
     Inr (map (\<lambda>p. (p, None))
            (map (\<lambda>p. profileSummary p ''x'')
               [exListed ''x'' ''n'' ''db'' ''u'' [] [],
                exListed ''db'' ''n'' ''h'' ''u'' [] [],
                exListed ''mydb'' ''n'' ''h'' ''u'' [] []]))
   \<and> map (\<lambda>entry. (s_id (fst entry), snd entry)) (projr (findProfiles exExactAmongMatches '' DB ''))
       = [(''db'', Some 150), (''x'', Some 60), (''mydb'', Some 50)]
   \<and> (\<exists>others. findProfiles exExactAmongMatches '' DB '' =
         Inr ((profileSummary (exListed ''db'' ''n'' ''h'' ''u'' [] []) ''x'',
               Some (matchScore ''db''
                 (profileSummary (exListed ''db'' ''n'' ''h'' ''u'' [] []) ''x'')))
              # others))
   \<and> (\<exists>top others.
         findProfiles exExactThenBroad ''db'' = Inr ((top, Some (matchScore ''db'' top)) # others)
         \<and> matchScore ''db'' (profileSummary (exListed ''db'' ''n'' ''h'' ''u'' [] []) ''db'')
               < matchScore ''db'' top)"
proof -
  let ?x = "profileSummary (exListed ''x'' ''n'' ''db'' ''u'' [] []) ''x''"
  let ?db = "profileSummary (exListed ''db'' ''n'' ''h'' ''u'' [] []) ''x''"
  let ?mydb = "profileSummary (exListed ''mydb'' ''n'' ''h'' ''u'' [] []) ''x''"
  let ?all = "map (\<lambda>p. profileSummary p ''x'')
               [exListed ''x'' ''n'' ''db'' ''u'' [] [],
                exListed ''db'' ''n'' ''h'' ''u'' [] [],
                exListed ''mydb'' ''n'' ''h'' ''u'' [] []]"
  have listed: "listProfiles exExactAmongMatches = Inr ?all"
    by (simp add: listProfiles_def ensureLoaded_def exExactAmongMatches_def exManagerOf_def)
  have blank: "toLowerCase (trim ''  '') = []" by code_simp
  have named: "toLowerCase (trim '' DB '') = ''db''" by code_simp
  have ranking: "map (\<lambda>entry. (s_id (fst entry), snd entry))
                   (projr (findProfiles exExactAmongMatches '' DB ''))
       = [(''db'', Some 150), (''x'', Some 60), (''mydb'', Some 50)]"
    by code_simp
  have parts: "?all = [?x] @ ?db # [?mydb]" by simp
  have query: "''db'' \<noteq> []" by simp
  have own: "toLowerCase (s_id ?db) = ''db''" by code_simp
  have earlier: "\<forall>q \<in> set [?x].
                  if toLowerCase (s_id q) = ''db'' then matchScore ''db'' q < matchScore ''db'' ?db
                  else matchesBeyondId ''db'' ?db \<or> \<not> matchesAllButExactId ''db'' q"
    by code_simp
  have later: "\<forall>q \<in> set [?mydb].
                  if toLowerCase (s_id q) = ''db'' then matchScore ''db'' q \<le> matchScore ''db'' ?db
                  else matchesBeyondId ''db'' ?db \<or> \<not> matchesAllButExactId ''db'' q"
    by code_simp
  note empty = C8_blank_or_exact_id [OF listed blank]
  note exact = C8_blank_or_exact_id [OF listed named]
  have first: "findProfiles exExactAmongMatches ''  '' = Inr (map (\<lambda>p. (p, None)) ?all)"
    by (rule empty [THEN conjunct1, THEN mp, OF refl])
  have second: "\<exists>others. findProfiles exExactAmongMatches '' DB '' =
         Inr ((?db, Some (matchScore ''db'' ?db)) # others)"
    by (rule exact [THEN conjunct2, THEN conjunct2, THEN conjunct2, THEN conjunct1,
                    THEN spec, THEN spec, THEN spec, THEN mp,
                    OF conjI [OF parts conjI [OF query conjI [OF own conjI [OF earlier later]]]]])
  let ?plain = "profileSummary (exListed ''db'' ''n'' ''h'' ''u'' [] []) ''db''"
  let ?broad = "profileSummary (exListed ''db2'' ''db'' ''db'' ''db'' ''db'' [''db'']) ''db''"
  let ?both = "map (\<lambda>p. profileSummary p ''db'')
               [exListed ''db'' ''n'' ''h'' ''u'' [] [],
                exListed ''db2'' ''db'' ''db'' ''db'' ''db'' [''db'']]"
  have listed2: "listProfiles exExactThenBroad = Inr ?both"
    by (simp add: listProfiles_def ensureLoaded_def exExactThenBroad_def exManagerOf_def)
  have plain: "toLowerCase (trim ''db'') = ''db''" by code_simp
  have parts2: "?both = [] @ ?plain # [?broad]" by simp
  have own2: "toLowerCase (s_id ?plain) = ''db''" by code_simp
  have broad: "\<exists>q \<in> set [?broad].
                 if toLowerCase (s_id q) = ''db'' then matchScore ''db'' ?plain < matchScore ''db'' q
                 else \<not> matchesBeyondId ''db'' ?plain \<and> matchesAllButExactId ''db'' q"
    by code_simp
  note outranked = C8_blank_or_exact_id [OF listed2 plain, THEN conjunct2, THEN conjunct2, THEN conjunct2,
                        THEN conjunct2, THEN spec, THEN spec, THEN spec, THEN mp,
                        OF conjI [OF parts2 conjI [OF query conjI [OF own2 disjI2 [OF broad]]]]]
  have third: "\<exists>top others.
         findProfiles exExactThenBroad ''db'' = Inr ((top, Some (matchScore ''db'' top)) # others)
         \<and> matchScore ''db'' ?plain < matchScore ''db'' top"
    using outranked by auto
  show ?thesis by (intro conjI first ranking second third)
qed

text \<open>C8 as the claim has it lets every exact id match rank first. Here the query \<open>db\<close>
  is the id of the first listed profile, which scores 150; the second profile has \<open>db\<close>
  inside its id and as host, name, user, note and tag, scores 155 and is returned first.\<close>

theorem C8_exact_id_outranked:
  "map (\<lambda>entry. (s_id (fst entry), snd entry)) (projr (findProfiles exExactThenBroad ''db''))
     = [(''db2'', Some 155), (''db'', Some 150)]"
  by code_simp

section \<open>Connecting\<close>

declare connectWithRetry_from.simps [simp del]

lemma suDialogueEnds_frame [simp]:
  "sshConfig (suDialogueEnds m ending) = sshConfig m"
  "conn (suDialogueEnds m ending) = conn m"
  by (simp_all add: suDialogueEnds_def split: SuOutcome.splits)

lemma ensureElevated_frame:
  "ensureElevated m = (promise, m', evs) \<Longrightarrow>
     sshConfig m' = sshConfig m \<and> (\<forall>ev \<in> set evs. isElevationEvent ev)"
  by (auto simp: ensureElevated_def isElevationEvent_def Let_def split: if_splits option.splits)

lemma connectOnce_shape:
  assumes "connectOnce m script k = (res, m', evs)"
  shows "sshConfig m' = sshConfig m
     \<and> (\<exists>tail. evs = ConnectAttempt k # tail \<and> (\<forall>ev \<in> set tail. isElevationEvent ev))"
proof -
  obtain promise m2 es where e: "ensureElevated
      ((case endedBefore script k of
          Some ending \<Rightarrow> if suPromise m = Some Pending then suDialogueEnds m ending else m
        | None \<Rightarrow> m)\<lparr>conn := Some True\<rparr>) = (promise, m2, es)"
    by (metis prod.collapse)
  from ensureElevated_frame [OF e]
  have fr: "sshConfig m2 = sshConfig m" "\<forall>ev \<in> set es. isElevationEvent ev"
    by (auto split: option.splits if_splits)
  show ?thesis
    using assms e fr
    by (auto simp: connectOnce_def Let_def isElevationEvent_def
             split: ClientOutcome.splits option.splits if_splits Promise.splits ElevationWait.splits)
qed

lemma stateBefore_config [simp]: "sshConfig (stateBefore m script k) = sshConfig m"
proof (induction k)
  case 0
  show ?case by simp
next
  case (Suc k)
  obtain res m' evs where c: "connectOnce (stateBefore m script k) script k = (res, m', evs)"
    by (metis prod.collapse)
  from connectOnce_shape [OF c] Suc show ?case by (simp add: c)
qed

lemma connectOnce_at:
  "connectOnce (stateBefore m script k) script k =
     ((case attemptFailure m script k of Some err \<Rightarrow> Inl err | None \<Rightarrow> Inr ()),
      stateBefore m script (Suc k), attemptEvents m script k)"
  by (cases "connectOnce (stateBefore m script k) script k")
     (simp add: attemptFailure_def attemptEvents_def split: sum.splits)

lemma attemptEvents_shape:
  "attemptEvents m script k = ConnectAttempt k # tl (attemptEvents m script k)
     \<and> (\<forall>ev \<in> set (tl (attemptEvents m script k)). isElevationEvent ev)"
proof -
  obtain res m' evs where c: "connectOnce (stateBefore m script k) script k = (res, m', evs)"
    by (metis prod.collapse)
  from connectOnce_shape [OF c] show ?thesis
    by (auto simp: attemptEvents_def c)
qed

lemma wrap_config:
  "sshConfig a = sshConfig b \<Longrightarrow> wrapConnectionError a err = wrapConnectionError b err"
  by (simp add: wrapConnectionError_def)

lemma retry_unfold:
  assumes "k \<le> 2"
  shows "connectWithRetry_from (stateBefore m script k) script k lastErr =
     (case attemptFailure m script k of
        None \<Rightarrow> (Inr (), stateBefore m script (Suc k), attemptEvents m script k)
      | Some err \<Rightarrow>
          if \<not> isRetryableConnectionError err \<or> k = 2
          then (Inl (wrapConnectionError m err), stateBefore m script (Suc k),
                attemptEvents m script k)
          else (case connectWithRetry_from (stateBefore m script (Suc k)) script (Suc k) (Some err) of
                  (r, m'', evs') \<Rightarrow>
                    (r, m'', attemptEvents m script k
                               @ Sleep (DEFAULT_CONNECT_RETRY_DELAYS_MS ! k) # evs')))"
proof -
  have w: "\<And>err. wrapConnectionError (stateBefore m script (Suc k)) err = wrapConnectionError m err"
    by (rule wrap_config) (simp only: stateBefore_config)
  show ?thesis
    using assms
    by (subst connectWithRetry_from.simps)
       (simp add: connectOnce_at w DEFAULT_CONNECT_RETRY_DELAYS_MS_def
             del: stateBefore.simps split: option.splits)
qed

lemma connectWithRetry_shapes:
  assumes run: "connectWithRetry m script = (r, m', evs)"
  shows "(attemptFailure m script 0 = None \<and> r = Inr () \<and> evs = attemptEvents m script 0)
   \<or> (\<exists>e0. attemptFailure m script 0 = Some e0 \<and> \<not> isRetryableConnectionError e0
        \<and> r = Inl (wrapConnectionError m e0) \<and> evs = attemptEvents m script 0)
   \<or> (\<exists>e0. attemptFailure m script 0 = Some e0 \<and> isRetryableConnectionError e0
        \<and> attemptFailure m script 1 = None \<and> r = Inr ()
        \<and> evs = attemptEvents m script 0 @ Sleep 200 # attemptEvents m script 1)
   \<or> (\<exists>e0 e1. attemptFailure m script 0 = Some e0 \<and> isRetryableConnectionError e0
        \<and> attemptFailure m script 1 = Some e1 \<and> \<not> isRetryableConnectionError e1
        \<and> r = Inl (wrapConnectionError m e1)
        \<and> evs = attemptEvents m script 0 @ Sleep 200 # attemptEvents m script 1)
   \<or> (\<exists>e0 e1. attemptFailure m script 0 = Some e0 \<and> isRetryableConnectionError e0
        \<and> attemptFailure m script 1 = Some e1 \<and> isRetryableConnectionError e1
        \<and> attemptFailure m script 2 = None \<and> r = Inr ()
        \<and> evs = attemptEvents m script 0 @ Sleep 200 # attemptEvents m script 1
                   @ Sleep 400 # attemptEvents m script 2)
   \<or> (\<exists>e0 e1 e2. attemptFailure m script 0 = Some e0 \<and> isRetryableConnectionError e0
        \<and> attemptFailure m script 1 = Some e1 \<and> isRetryableConnectionError e1
        \<and> attemptFailure m script 2 = Some e2
        \<and> r = Inl (wrapConnectionError m e2)
        \<and> evs = attemptEvents m script 0 @ Sleep 200 # attemptEvents m script 1
                   @ Sleep 400 # attemptEvents m script 2)"
proof -
  have k0: "(0::nat) \<le> 2" and k1: "(1::nat) \<le> 2" and k2: "(2::nat) \<le> 2" by simp_all
  note u0 = retry_unfold [OF k0, of m script None]
  have run0: "connectWithRetry_from (stateBefore m script 0) script 0 None = (r, m', evs)"
    using run by (simp add: connectWithRetry_def)
  show ?thesis
  proof (cases "attemptFailure m script 0")
    case None
    then show ?thesis using run0 u0 by simp
  next
    case f0: (Some e0)
    show ?thesis
    proof (cases "isRetryableConnectionError e0")
      case False
      then show ?thesis using run0 u0 f0 by simp
    next
      case r0: True
      obtain r1 m1 evs1 where
        rest1: "connectWithRetry_from (stateBefore m script (Suc 0)) script (Suc 0) (Some e0)
                  = (r1, m1, evs1)"
        by (metis prod.collapse)
      have top: "r = r1" "evs = attemptEvents m script 0 @ Sleep 200 # evs1"
        using run0 u0 f0 r0 rest1 by (simp_all add: DEFAULT_CONNECT_RETRY_DELAYS_MS_def)
      note u1 = retry_unfold [OF k1, of m script "Some e0", simplified One_nat_def]
      show ?thesis
      proof (cases "attemptFailure m script 1")
        case None
        then show ?thesis using top rest1 u1 f0 r0 by simp
      next
        case f1: (Some e1)
        show ?thesis
        proof (cases "isRetryableConnectionError e1")
          case False
          then show ?thesis using top rest1 u1 f0 r0 f1 by simp
        next
          case r1: True
          obtain r2 m2 evs2 where
            rest2: "connectWithRetry_from (stateBefore m script (Suc (Suc 0))) script (Suc (Suc 0)) (Some e1)
                      = (r2, m2, evs2)"
            by (metis prod.collapse)
          have mid: "r1 = r2" "evs1 = attemptEvents m script 1 @ Sleep 400 # evs2"
            using rest1 u1 f1 r1 rest2 by (simp_all add: DEFAULT_CONNECT_RETRY_DELAYS_MS_def)
          note u2 = retry_unfold [OF k2, of m script "Some e1", simplified numeral_2_eq_2]
          show ?thesis
          proof (cases "attemptFailure m script 2")
            case None
            then show ?thesis using top mid rest2 u2 f0 r0 f1 r1 by (simp add: numeral_2_eq_2)
          next
            case f2: (Some e2)
            then show ?thesis using top mid rest2 u2 f0 r0 f1 r1 by (simp add: numeral_2_eq_2)
          qed
        qed
      qed
    qed
  qed
qed

lemma attemptsOf_simps [simp]:
  "attemptsOf [] = []"
  "attemptsOf (ConnectAttempt k # evs) = k # attemptsOf evs"
  "attemptsOf (Sleep d # evs) = attemptsOf evs"
  "attemptsOf (xs @ ys) = attemptsOf xs @ attemptsOf ys"
  by (simp_all add: attemptsOf_def)

lemma sleepsOf_simps [simp]:
  "sleepsOf [] = []"
  "sleepsOf (ConnectAttempt k # evs) = sleepsOf evs"
  "sleepsOf (Sleep d # evs) = d # sleepsOf evs"
  "sleepsOf (xs @ ys) = sleepsOf xs @ sleepsOf ys"
  by (simp_all add: sleepsOf_def)

lemma elevation_plain:
  assumes "\<forall>ev \<in> set tail. isElevationEvent ev"
  shows "attemptsOf tail = []" and "sleepsOf tail = []"
    and "ConnectAttempt j \<notin> set tail" and "Sleep d \<notin> set tail"
proof -
  from assms show "ConnectAttempt j \<notin> set tail" "Sleep d \<notin> set tail"
    by (auto simp: isElevationEvent_def)
  from assms show "attemptsOf tail = []"
    by (induction tail) (auto simp: attemptsOf_def isElevationEvent_def)
  from assms show "sleepsOf tail = []"
    by (induction tail) (auto simp: sleepsOf_def isElevationEvent_def)
qed

lemma attemptEvents_plain [simp]:
  "attemptsOf (attemptEvents m script k) = [k]"
  "sleepsOf (attemptEvents m script k) = []"
  "ConnectAttempt j \<in> set (attemptEvents m script k) \<longleftrightarrow> j = k"
  "Sleep d \<notin> set (attemptEvents m script k)"
proof -
  note sh = attemptEvents_shape [of m script k]
  note pl = elevation_plain [OF sh [THEN conjunct2]]
  show "attemptsOf (attemptEvents m script k) = [k]"
    by (subst sh [THEN conjunct1]) (simp add: pl)
  show "sleepsOf (attemptEvents m script k) = []"
    by (subst sh [THEN conjunct1]) (simp add: pl)
  show "ConnectAttempt j \<in> set (attemptEvents m script k) \<longleftrightarrow> j = k"
    by (subst sh [THEN conjunct1]) (auto simp: pl)
  show "Sleep d \<notin> set (attemptEvents m script k)"
    by (subst sh [THEN conjunct1]) (simp add: pl)
qed

lemma connect_shapes:
  assumes "connect m script = (r, m', evs)"
  shows "(r = Inr () \<and> evs = []) \<or> connectWithRetry m script = (r, m', evs)"
  using assms by (auto simp: connect_def split: if_splits)

lemma ex_le_2: "(\<exists>k\<le>(2::nat). P k) \<longleftrightarrow> P 0 \<or> P 1 \<or> P 2"
  by (auto simp: le_Suc_eq numeral_2_eq_2)

lemma retry_schedule:
  assumes "connectWithRetry m script = (r, m', evs)"
  shows "attemptsOf evs = [0 ..< length (attemptsOf evs)] \<and> length (attemptsOf evs) \<le> 3
       \<and> sleepsOf evs = take (length (attemptsOf evs) - 1) DEFAULT_CONNECT_RETRY_DELAYS_MS"
  using connectWithRetry_shapes [OF assms]
  by (elim disjE exE conjE; simp add: DEFAULT_CONNECT_RETRY_DELAYS_MS_def upt_rec)

lemma retry_next:
  assumes "connectWithRetry m script = (r, m', evs)"
  shows "\<forall>k err. k < 2 \<and> ConnectAttempt k \<in> set evs \<and> attemptFailure m script k = Some err
            \<and> isRetryableConnectionError err \<longrightarrow> ConnectAttempt (Suc k) \<in> set evs"
  using connectWithRetry_shapes [OF assms]
  by (elim disjE exE conjE; auto simp: less_Suc_eq numeral_2_eq_2)

lemma retry_stops:
  assumes "connectWithRetry m script = (r, m', evs)"
  shows "\<forall>k err. attemptFailure m script k = Some err \<and> \<not> isRetryableConnectionError err
            \<longrightarrow> ConnectAttempt (Suc k) \<notin> set evs
                \<and> (ConnectAttempt k \<in> set evs \<longrightarrow> r = Inl (wrapConnectionError m err))"
  using connectWithRetry_shapes [OF assms]
  by (elim disjE exE conjE; auto simp: numeral_2_eq_2 intro!: gr0I)

lemma retry_raises:
  assumes "connectWithRetry m script = (r, m', evs)"
  shows "\<forall>e. r = Inl e \<longrightarrow> (\<exists>k err. attemptFailure m script k = Some err \<and> ConnectAttempt k \<in> set evs
            \<and> e = wrapConnectionError m err)"
  using connectWithRetry_shapes [OF assms]
  by (elim disjE exE conjE; auto)

lemma retry_succeeds:
  assumes "connectWithRetry m script = (r, m', evs)"
  shows "\<forall>k. ConnectAttempt k \<in> set evs \<and> attemptFailure m script k = None \<longrightarrow> r = Inr ()"
  using connectWithRetry_shapes [OF assms]
  by (elim disjE exE conjE; auto)

lemma retry_includes:
  assumes "connectWithRetry m script = (r, m', evs)"
  shows "\<forall>k. ConnectAttempt k \<in> set evs \<longrightarrow>
            k \<le> 2 \<and> (\<forall>j \<le> k. set (attemptEvents m script j) \<subseteq> set evs)"
  using connectWithRetry_shapes [OF assms]
  by (elim disjE exE conjE; auto simp: le_Suc_eq numeral_2_eq_2)

lemma retry_elevations:
  assumes "connectWithRetry m script = (r, m', evs)"
  shows "\<forall>ev \<in> set evs. isElevationEvent ev \<longrightarrow>
            (\<exists>k \<le> 2. ev \<in> set (attemptEvents m script k))"
  using connectWithRetry_shapes [OF assms]
  by (elim disjE exE conjE; auto simp: ex_le_2 isElevationEvent_def)

lemma retry_last:
  assumes "connectWithRetry m script = (r, m', evs)"
  shows "\<forall>k err. ConnectAttempt k \<in> set evs \<and> attemptFailure m script k = Some err
            \<and> ConnectAttempt (Suc k) \<notin> set evs \<longrightarrow> r = Inl (wrapConnectionError m err)"
  using connectWithRetry_shapes [OF assms]
  by (elim disjE exE conjE; auto simp: numeral_2_eq_2 intro!: gr0I)

lemma isAuthFailure_signatures:
  "isAuthFailure err \<longleftrightarrow>
     (\<exists>signature \<in> set [''authentication'', ''permission denied'',
                        ''all configured authentication methods failed'', ''auth failed''].
        includesStr (toLowerCase (e_message err)) signature)"
  by (simp add: isAuthFailure_def Let_def)

lemma isRetryable_classes:
  "isRetryableConnectionError err \<longleftrightarrow>
     \<not> (\<exists>signature \<in> set [''authentication'', ''permission denied'',
                          ''all configured authentication methods failed'', ''auth failed''].
          includesStr (toLowerCase (e_message err)) signature)
     \<and> ((\<exists>code \<in> set [''ECONNREFUSED'', ''ECONNRESET'', ''EHOSTUNREACH'', ''ENETUNREACH'',
                        ''ETIMEDOUT'']. e_code err = Some code)
        \<or> (\<exists>word \<in> set [''handshake'', ''kex'', ''timeout'', ''timed out'',
                          ''connection closed'', ''protocol''].
              includesStr (toLowerCase (e_message err)) word))"
  unfolding isAuthFailure_signatures [symmetric]
  by (cases "e_code err") (auto simp: isRetryableConnectionError_def Let_def)

lemma connectOnce_fails:
  "fst (connectOnce s script k) = Inl err \<longleftrightarrow>
     clientOutcome script k = ClientError err
   \<or> clientOutcome script k = ConnectThrows err
   \<or> (clientOutcome script k = ClientSilent
        \<and> err = \<lparr> e_code = Some ''ETIMEDOUT'', e_message = ''SSH connection timeout'' \<rparr>)
   \<or> (clientOutcome script k = ClientReady
        \<and> isTruthy (c_suPassword (sshConfig s)) \<and> \<not> testEnv script
        \<and> whileElevating script k = ClientErrorFirst err)"
proof -
  let ?s0 = "case endedBefore script k of
               Some ending \<Rightarrow> if suPromise s = Some Pending then suDialogueEnds s ending else s
             | None \<Rightarrow> s"
  have cfg: "sshConfig ?s0 = sshConfig s" by (simp split: option.splits)
  show ?thesis
    using cfg
    by (cases "ensureElevated (?s0\<lparr>conn := Some True\<rparr>)")
       (auto simp: connectOnce_def Let_def split: ClientOutcome.splits ElevationWait.splits)
qed

lemma attemptFailure_iff:
  "attemptFailure m script k = Some err \<longleftrightarrow>
     clientOutcome script k = ClientError err
   \<or> clientOutcome script k = ConnectThrows err
   \<or> (clientOutcome script k = ClientSilent
        \<and> err = \<lparr> e_code = Some ''ETIMEDOUT'', e_message = ''SSH connection timeout'' \<rparr>)
   \<or> (clientOutcome script k = ClientReady
        \<and> isTruthy (c_suPassword (sshConfig m)) \<and> \<not> testEnv script
        \<and> whileElevating script k = ClientErrorFirst err)"
proof -
  have "attemptFailure m script k = Some err
          \<longleftrightarrow> fst (connectOnce (stateBefore m script k) script k) = Inl err"
    by (simp add: attemptFailure_def split: sum.splits)
  then show ?thesis by (simp add: connectOnce_fails)
qed







lemma connect_run_facts:
  assumes run: "connect m script = (r, m', evs)"
  shows "attemptsOf evs = [0 ..< length (attemptsOf evs)] \<and> length (attemptsOf evs) \<le> 3
       \<and> sleepsOf evs = take (length (attemptsOf evs) - 1) DEFAULT_CONNECT_RETRY_DELAYS_MS"
    and "\<forall>k err. k < 2 \<and> ConnectAttempt k \<in> set evs \<and> attemptFailure m script k = Some err
            \<and> isRetryableConnectionError err \<longrightarrow> ConnectAttempt (Suc k) \<in> set evs"
    and "\<forall>k err. attemptFailure m script k = Some err \<and> \<not> isRetryableConnectionError err
            \<longrightarrow> ConnectAttempt (Suc k) \<notin> set evs
                \<and> (ConnectAttempt k \<in> set evs \<longrightarrow> r = Inl (wrapConnectionError m err))"
    and "\<forall>e. r = Inl e \<longrightarrow> (\<exists>k err. attemptFailure m script k = Some err \<and> ConnectAttempt k \<in> set evs
            \<and> e = wrapConnectionError m err)"
    and "\<forall>k. ConnectAttempt k \<in> set evs \<and> attemptFailure m script k = None \<longrightarrow> r = Inr ()"
    and "\<forall>k. ConnectAttempt k \<in> set evs \<longrightarrow>
            k \<le> 2 \<and> (\<forall>j \<le> k. set (attemptEvents m script j) \<subseteq> set evs)"
    and "\<forall>ev \<in> set evs. isElevationEvent ev \<longrightarrow>
            (\<exists>k \<le> 2. ev \<in> set (attemptEvents m script k))"
    and "\<forall>k err. ConnectAttempt k \<in> set evs \<and> attemptFailure m script k = Some err
            \<and> ConnectAttempt (Suc k) \<notin> set evs \<longrightarrow> r = Inl (wrapConnectionError m err)"
proof -
  from connect_shapes [OF run] consider
      (idle) "r = Inr ()" "evs = []"
    | (retry) "connectWithRetry m script = (r, m', evs)" by blast
  note shape = this
  from shape
  show "attemptsOf evs = [0 ..< length (attemptsOf evs)] \<and> length (attemptsOf evs) \<le> 3
       \<and> sleepsOf evs = take (length (attemptsOf evs) - 1) DEFAULT_CONNECT_RETRY_DELAYS_MS"
    by cases (simp, rule retry_schedule)
  from shape
  show "\<forall>k err. k < 2 \<and> ConnectAttempt k \<in> set evs \<and> attemptFailure m script k = Some err
            \<and> isRetryableConnectionError err \<longrightarrow> ConnectAttempt (Suc k) \<in> set evs"
    by cases (simp, rule retry_next)
  from shape
  show "\<forall>k err. attemptFailure m script k = Some err \<and> \<not> isRetryableConnectionError err
            \<longrightarrow> ConnectAttempt (Suc k) \<notin> set evs
                \<and> (ConnectAttempt k \<in> set evs \<longrightarrow> r = Inl (wrapConnectionError m err))"
    by cases (simp, rule retry_stops)
  from shape
  show "\<forall>e. r = Inl e \<longrightarrow> (\<exists>k err. attemptFailure m script k = Some err \<and> ConnectAttempt k \<in> set evs
            \<and> e = wrapConnectionError m err)"
    by cases (simp, rule retry_raises)
  from shape
  show "\<forall>k. ConnectAttempt k \<in> set evs \<and> attemptFailure m script k = None \<longrightarrow> r = Inr ()"
    by cases (simp, rule retry_succeeds)
  from shape
  show "\<forall>k. ConnectAttempt k \<in> set evs \<longrightarrow>
            k \<le> 2 \<and> (\<forall>j \<le> k. set (attemptEvents m script j) \<subseteq> set evs)"
    by cases (simp, rule retry_includes)
  from shape
  show "\<forall>ev \<in> set evs. isElevationEvent ev \<longrightarrow>
            (\<exists>k \<le> 2. ev \<in> set (attemptEvents m script k))"
    by cases (simp, rule retry_elevations)
  from shape
  show "\<forall>k err. ConnectAttempt k \<in> set evs \<and> attemptFailure m script k = Some err
            \<and> ConnectAttempt (Suc k) \<notin> set evs \<longrightarrow> r = Inl (wrapConnectionError m err)"
    by cases (simp, rule retry_last)
qed





text \<open>
  C4. For every \<open>connect()\<close>: the attempts are numbered from 0, at most three are made,
  and the sleeps between them are the first of the fixed delays 200 and 400. An attempt
  fails with the error its client reports or throws from \<open>connect\<close>, with the \<open>ETIMEDOUT\<close>
  error of the 30 second timer, or with the error its client reports while the elevation
  is awaited, and in no other way. A failed attempt before the third is followed by the next attempt exactly
  when its message (in lower case) contains none of the authentication-failure
  signatures \<open>authentication\<close>, \<open>permission denied\<close>,
  \<open>all configured authentication methods failed\<close>, \<open>auth failed\<close>, and its code is one of
  \<open>ECONNREFUSED\<close>, \<open>ECONNRESET\<close>, \<open>EHOSTUNREACH\<close>, \<open>ENETUNREACH\<close>, \<open>ETIMEDOUT\<close> or its
  message contains one of \<open>handshake\<close>, \<open>kex\<close>, \<open>timeout\<close>, \<open>timed out\<close>,
  \<open>connection closed\<close>, \<open>protocol\<close>. An attempt failing with an authentication-failure
  signature is followed by no attempt, whatever its code, and its error is the one
  raised. The error of a failed attempt that is followed by no other is the one raised,
  and an attempt that does not fail ends the run with success. Every error raised is
  the error of an attempt that was made, wrapped in a text that names the profile id (or
  \<open>unknown\<close>), the host and the port.
\<close>

theorem C4_connect_retry:
  assumes "connect m script = (r, m', evs)"
  shows "attemptsOf evs = [0 ..< length (attemptsOf evs)] \<and> length (attemptsOf evs) \<le> 3
     \<and> sleepsOf evs = take (length (attemptsOf evs) - 1) [200, 400]
     \<and> (\<forall>k err. attemptFailure m script k = Some err \<longleftrightarrow>
           clientOutcome script k = ClientError err
         \<or> clientOutcome script k = ConnectThrows err
         \<or> (clientOutcome script k = ClientSilent
              \<and> err = \<lparr> e_code = Some ''ETIMEDOUT'', e_message = ''SSH connection timeout'' \<rparr>)
         \<or> (clientOutcome script k = ClientReady
              \<and> isTruthy (c_suPassword (sshConfig m)) \<and> \<not> testEnv script
              \<and> whileElevating script k = ClientErrorFirst err))
     \<and> (\<forall>k err. k < 2 \<and> ConnectAttempt k \<in> set evs \<and> attemptFailure m script k = Some err \<longrightarrow>
           (ConnectAttempt (Suc k) \<in> set evs \<longleftrightarrow>
              \<not> (\<exists>signature \<in> set [''authentication'', ''permission denied'',
                                   ''all configured authentication methods failed'',
                                   ''auth failed''].
                   includesStr (toLowerCase (e_message err)) signature)
              \<and> ((\<exists>code \<in> set [''ECONNREFUSED'', ''ECONNRESET'', ''EHOSTUNREACH'',
                                 ''ENETUNREACH'', ''ETIMEDOUT'']. e_code err = Some code)
                 \<or> (\<exists>word \<in> set [''handshake'', ''kex'', ''timeout'', ''timed out'',
                                   ''connection closed'', ''protocol''].
                       includesStr (toLowerCase (e_message err)) word))))
     \<and> (\<forall>k. k < 2 \<and> ConnectAttempt k \<in> set evs \<and> clientOutcome script k = ClientSilent
           \<longrightarrow> ConnectAttempt (Suc k) \<in> set evs)
     \<and> (\<forall>k err. attemptFailure m script k = Some err
           \<and> (\<exists>signature \<in> set [''authentication'', ''permission denied'',
                                 ''all configured authentication methods failed'',
                                 ''auth failed''].
                 includesStr (toLowerCase (e_message err)) signature)
           \<longrightarrow> ConnectAttempt (Suc k) \<notin> set evs
               \<and> (ConnectAttempt k \<in> set evs \<longrightarrow>
                     r = Inl (McpError (''SSH connection error (profileId=''
                      @ (case c_profileId (sshConfig m) of
                           None \<Rightarrow> ''unknown''
                         | Some pid \<Rightarrow> if pid \<noteq> [] then pid else ''unknown'')
                      @ '' host='' @ c_host (sshConfig m)
                      @ '' port='' @ numberToString (c_port (sshConfig m))
                      @ ''): '' @ e_message err))))
     \<and> (\<forall>k err. ConnectAttempt k \<in> set evs \<and> attemptFailure m script k = Some err
           \<and> ConnectAttempt (Suc k) \<notin> set evs
           \<longrightarrow> r = Inl (McpError (''SSH connection error (profileId=''
                      @ (case c_profileId (sshConfig m) of
                           None \<Rightarrow> ''unknown''
                         | Some pid \<Rightarrow> if pid \<noteq> [] then pid else ''unknown'')
                      @ '' host='' @ c_host (sshConfig m)
                      @ '' port='' @ numberToString (c_port (sshConfig m))
                      @ ''): '' @ e_message err)))
     \<and> (\<forall>k. ConnectAttempt k \<in> set evs \<and> attemptFailure m script k = None \<longrightarrow> r = Inr ())
     \<and> (\<forall>e. r = Inl e \<longrightarrow>
           (\<exists>k err. ConnectAttempt k \<in> set evs \<and> attemptFailure m script k = Some err
              \<and> e = McpError (''SSH connection error (profileId=''
                      @ (case c_profileId (sshConfig m) of
                           None \<Rightarrow> ''unknown''
                         | Some pid \<Rightarrow> if pid \<noteq> [] then pid else ''unknown'')
                      @ '' host='' @ c_host (sshConfig m)
                      @ '' port='' @ numberToString (c_port (sshConfig m))
                      @ ''): '' @ e_message err)))"
proof -
  note facts = connect_run_facts [OF assms]
  have wrapped: "\<And>err. wrapConnectionError m err =
      McpError (''SSH connection error (profileId=''
                      @ (case c_profileId (sshConfig m) of
                           None \<Rightarrow> ''unknown''
                         | Some pid \<Rightarrow> if pid \<noteq> [] then pid else ''unknown'')
                      @ '' host='' @ c_host (sshConfig m)
                      @ '' port='' @ numberToString (c_port (sshConfig m))
                      @ ''): '' @ e_message err)"
    by (simp add: wrapConnectionError_def formatTargetContext_def)
  have schedule: "attemptsOf evs = [0 ..< length (attemptsOf evs)] \<and> length (attemptsOf evs) \<le> 3
     \<and> sleepsOf evs = take (length (attemptsOf evs) - 1) [200, 400]"
    using facts(1) by (simp add: DEFAULT_CONNECT_RETRY_DELAYS_MS_def)
  have fails: "\<forall>k err. attemptFailure m script k = Some err \<longleftrightarrow>
           clientOutcome script k = ClientError err
         \<or> clientOutcome script k = ConnectThrows err
         \<or> (clientOutcome script k = ClientSilent
              \<and> err = \<lparr> e_code = Some ''ETIMEDOUT'', e_message = ''SSH connection timeout'' \<rparr>)
         \<or> (clientOutcome script k = ClientReady
              \<and> isTruthy (c_suPassword (sshConfig m)) \<and> \<not> testEnv script
              \<and> whileElevating script k = ClientErrorFirst err)"
    using attemptFailure_iff by blast
  have retried: "\<forall>k err. k < 2 \<and> ConnectAttempt k \<in> set evs \<and> attemptFailure m script k = Some err \<longrightarrow>
           (ConnectAttempt (Suc k) \<in> set evs \<longleftrightarrow> isRetryableConnectionError err)"
    using facts(2) facts(3) by blast
  have silent: "\<forall>k. k < 2 \<and> ConnectAttempt k \<in> set evs \<and> clientOutcome script k = ClientSilent
           \<longrightarrow> ConnectAttempt (Suc k) \<in> set evs"
  proof (intro allI impI)
    fix k
    assume a: "k < 2 \<and> ConnectAttempt k \<in> set evs \<and> clientOutcome script k = ClientSilent"
    have late: "isRetryableConnectionError
                  \<lparr> e_code = Some ''ETIMEDOUT'', e_message = ''SSH connection timeout'' \<rparr>"
      by code_simp
    from a have "attemptFailure m script k
        = Some \<lparr> e_code = Some ''ETIMEDOUT'', e_message = ''SSH connection timeout'' \<rparr>"
      by (simp add: attemptFailure_iff)
    then show "ConnectAttempt (Suc k) \<in> set evs"
      using retried a late by blast
  qed
  have terminal: "\<forall>k err. attemptFailure m script k = Some err \<and> isAuthFailure err
           \<longrightarrow> ConnectAttempt (Suc k) \<notin> set evs
               \<and> (ConnectAttempt k \<in> set evs \<longrightarrow> r = Inl (wrapConnectionError m err))"
  proof -
    have "\<And>err. isAuthFailure err \<Longrightarrow> \<not> isRetryableConnectionError err"
      by (simp add: isRetryableConnectionError_def)
    then show ?thesis using facts(3) by blast
  qed
  have named: "\<forall>e. r = Inl e \<longrightarrow>
           (\<exists>k err. ConnectAttempt k \<in> set evs \<and> attemptFailure m script k = Some err
              \<and> e = wrapConnectionError m err)"
    using facts(4) by blast
  note parts = schedule [THEN conjunct1] schedule [THEN conjunct2, THEN conjunct1]
       schedule [THEN conjunct2, THEN conjunct2] fails
       retried [unfolded isRetryable_classes] silent
       terminal [unfolded isAuthFailure_signatures wrapped]
       facts(8) [unfolded wrapped] facts(5) named [unfolded wrapped]
  show ?thesis by (intro conjI parts)
qed

theorem C4_connect_retry_witness:
  "connect exDown exRefusedThenDenied =
     (Inl (McpError (''SSH connection error (profileId=alpha host=alpha.example.com port=22): ''
                       @ ''All configured authentication methods failed'')),
      exDown, [ConnectAttempt 0, Sleep 200, ConnectAttempt 1])
   \<and> attemptFailure exDown exRefusedThenDenied 0
       = Some \<lparr> e_code = Some ''ECONNREFUSED'', e_message = ''connect ECONNREFUSED 127.0.0.1:22'' \<rparr>
   \<and> attemptFailure exDown exRefusedThenDenied 1
       = Some \<lparr> e_code = None, e_message = ''All configured authentication methods failed'' \<rparr>
   \<and> ConnectAttempt (Suc 0) \<in> set [ConnectAttempt 0, Sleep 200, ConnectAttempt 1]
   \<and> ConnectAttempt (Suc 1) \<notin> set [ConnectAttempt 0, Sleep 200, ConnectAttempt 1]"
proof -
  let ?refused = "\<lparr> e_code = Some ''ECONNREFUSED'',
                     e_message = ''connect ECONNREFUSED 127.0.0.1:22'' \<rparr>"
  let ?denied = "\<lparr> e_code = None,
                    e_message = ''All configured authentication methods failed'' \<rparr>"
  let ?evs = "[ConnectAttempt 0, Sleep 200, ConnectAttempt 1]"
  have run: "connect exDown exRefusedThenDenied =
     (Inl (McpError (''SSH connection error (profileId=alpha host=alpha.example.com port=22): ''
                       @ ''All configured authentication methods failed'')),
      exDown, ?evs)"
    by code_simp
  note all = C4_connect_retry [OF run]
  note fails = all [THEN conjunct2, THEN conjunct2, THEN conjunct2, THEN conjunct1]
  note retried = all [THEN conjunct2, THEN conjunct2, THEN conjunct2, THEN conjunct2,
                      THEN conjunct1]
  note terminal = all [THEN conjunct2, THEN conjunct2, THEN conjunct2, THEN conjunct2,
                       THEN conjunct2, THEN conjunct2, THEN conjunct1]
  have o0: "clientOutcome exRefusedThenDenied 0 = ClientError ?refused"
    and o1: "clientOutcome exRefusedThenDenied 1 = ClientError ?denied"
    by (simp_all add: exRefusedThenDenied_def)
  have f0: "attemptFailure exDown exRefusedThenDenied 0 = Some ?refused"
    by (rule fails [THEN spec, THEN spec, THEN iffD2, OF disjI1, OF o0])
  have f1: "attemptFailure exDown exRefusedThenDenied 1 = Some ?denied"
    by (rule fails [THEN spec, THEN spec, THEN iffD2, OF disjI1, OF o1])
  have early: "(0::nat) < 2" and made: "ConnectAttempt 0 \<in> set ?evs" by simp_all
  have refusal: "(0::nat) < 2 \<and> ConnectAttempt 0 \<in> set ?evs
           \<and> attemptFailure exDown exRefusedThenDenied 0 = Some ?refused"
    by (intro conjI early made f0)
  have transport: "\<not> (\<exists>signature \<in> set [''authentication'', ''permission denied'',
                                   ''all configured authentication methods failed'',
                                   ''auth failed''].
                   includesStr (toLowerCase (e_message ?refused)) signature)
              \<and> ((\<exists>code \<in> set [''ECONNREFUSED'', ''ECONNRESET'', ''EHOSTUNREACH'',
                                 ''ENETUNREACH'', ''ETIMEDOUT'']. e_code ?refused = Some code)
                 \<or> (\<exists>word \<in> set [''handshake'', ''kex'', ''timeout'', ''timed out'',
                                   ''connection closed'', ''protocol''].
                       includesStr (toLowerCase (e_message ?refused)) word))"
    by code_simp
  have signed: "\<exists>signature \<in> set [''authentication'', ''permission denied'',
                                 ''all configured authentication methods failed'',
                                 ''auth failed''].
                 includesStr (toLowerCase (e_message ?denied)) signature"
    by code_simp
  have denial: "attemptFailure exDown exRefusedThenDenied 1 = Some ?denied
           \<and> (\<exists>signature \<in> set [''authentication'', ''permission denied'',
                                 ''all configured authentication methods failed'',
                                 ''auth failed''].
                 includesStr (toLowerCase (e_message ?denied)) signature)"
    by (intro conjI f1 signed)
  have second: "ConnectAttempt (Suc 0) \<in> set ?evs"
    by (rule retried [THEN spec, THEN spec, THEN mp, OF refusal, THEN iffD2, OF transport])
  have third: "ConnectAttempt (Suc 1) \<notin> set ?evs"
    by (rule terminal [THEN spec, THEN spec, THEN mp, OF denial, THEN conjunct1])
  show ?thesis by (intro conjI run f0 f1 second third)
qed

text \<open>The signature decides before the code: a failure with the code \<open>ETIMEDOUT\<close> whose
  message says \<open>Authentication timed out\<close> ends the run at the first attempt.\<close>

lemma auth_signature_before_code:
  "connect exDown exAuthTimedOut =
     (Inl (McpError (''SSH connection error (profileId=alpha host=alpha.example.com port=22): ''
                       @ ''Authentication timed out'')),
      exDown, [ConnectAttempt 0])"
  by code_simp




text \<open>Outside the test environment too the call can come to nothing. After
  \<open>ensureElevated()\<close> was called without a connection the rejected promise stays in
  \<open>suPromise\<close>; \<open>connect()\<close> then calls \<open>ensureElevated\<close>, gets that promise back, requests
  no shell and succeeds without elevation.\<close>

lemma stale_promise_blocks_elevation:
  "exStale = exSuDown\<lparr>suPromise := Some (Rejected (McpError
       ''SSH connection not established (profileId=alpha host=alpha.example.com port=22)''))\<rparr>
   \<and> connect exStale (exReadySuRejected False) =
       (Inr (), exStale\<lparr>conn := Some True\<rparr>, [ConnectAttempt 0, EnsureElevatedCalled])"
  by code_simp

text \<open>An error of the client while the elevation is awaited fails the attempt, and the
  run goes on as after any other failure of that class: here the reset is retried, the
  second attempt starts a new dialogue and the run ends elevated.\<close>

lemma reset_while_elevating_is_retried:
  "connect exSuDown exResetWhileElevating =
     (Inr (), exSuDown\<lparr>conn := Some True, suShell := Some 7, isElevated := True\<rparr>,
      [ConnectAttempt 0, EnsureElevatedCalled, SuShellRequested, Sleep 200,
       ConnectAttempt 1, EnsureElevatedCalled, SuShellRequested])"
  by code_simp


section \<open>The profile store\<close>

lemma bindE_Inr: "bindE r f = Inr v \<longleftrightarrow> (\<exists>a. r = Inr a \<and> f a = Inr v)"
  by (cases r) (auto simp: bindE_def)

lemma validate_active:
  assumes "validateRawProfilesConfig w raw = Inr c"
  shows "activeProfile c \<noteq> [] \<and> hasProfile (profiles c) (activeProfile c)"
proof -
  from assms obtain expanded where
    parsed: "profilesConfigSchema_parse expanded = Inr c"
    and exists: "ensureActiveProfileExists c = Inr ()"
    by (auto simp: validateRawProfilesConfig_def bindE_Inr)
  from parsed have "activeProfile c \<noteq> []"
    by (auto simp: profilesConfigSchema_parse_def bindE_Inr split: if_splits)
  moreover from exists have "hasProfile (profiles c) (activeProfile c)"
    by (force simp: ensureActiveProfileExists_def hasProfile_def list_ex_iff split: if_splits)
  ultimately show ?thesis by simp
qed

lemma pick_total:
  assumes "activeProfile (config loaded) \<noteq> []"
    and "hasProfile (profiles (config loaded)) (activeProfile (config loaded))"
  shows "\<exists>a. pickActiveProfileId m loaded preferred = Inr a
          \<and> (\<forall>p. preferred = Some p \<and> p \<noteq> [] \<and> hasProfile (profiles (config loaded)) p \<longrightarrow> a = p)"
  using assms
  by (cases preferred; cases "profileOverride m") (auto simp: pickActiveProfileId_def)

lemma persist_result:
  assumes "persistRawConfig w m raw preferred = (res, w', m')"
  shows "(\<exists>e. res = Inl e \<and> w' = w \<and> m' = m)
       \<or> (res = Inr () \<and> (\<exists>loaded c a.
             ensureLoaded m = Inr loaded \<and> validateRawProfilesConfig w raw = Inr c
           \<and> w' = w\<lparr>configFile := serializeRawConfig w raw\<rparr>
           \<and> m' = m\<lparr>loadedConfig := Some (loaded\<lparr>rawConfig := raw, config := c\<rparr>),
                     activeProfileId := Some a\<rparr>
           \<and> (\<forall>p. preferred = Some p \<and> p \<noteq> [] \<and> hasProfile (profiles c) p \<longrightarrow> a = p)))"
proof (cases "ensureLoaded m")
  case (Inl e)
  then show ?thesis using assms by (auto simp: persistRawConfig_def)
next
  case loaded: (Inr loaded)
  show ?thesis
  proof (cases "validateRawProfilesConfig w raw")
    case (Inl e)
    then show ?thesis using assms loaded by (auto simp: persistRawConfig_def)
  next
    case valid: (Inr c)
    let ?next = "loaded\<lparr>rawConfig := raw, config := c\<rparr>"
    let ?m1 = "m\<lparr>loadedConfig := Some ?next\<rparr>"
    let ?pref = "case preferred of Some p \<Rightarrow> Some p | None \<Rightarrow> activeProfileId ?m1"
    from validate_active [OF valid]
    have act: "activeProfile (config ?next) \<noteq> []"
      "hasProfile (profiles (config ?next)) (activeProfile (config ?next))" by simp_all
    from pick_total [OF act, of ?m1 ?pref]
    obtain a where a: "pickActiveProfileId ?m1 ?next ?pref = Inr a"
      and pa: "\<forall>p. ?pref = Some p \<and> p \<noteq> [] \<and> hasProfile (profiles (config ?next)) p \<longrightarrow> a = p"
      by blast
    have "persistRawConfig w m raw preferred
            = (Inr (), w\<lparr>configFile := serializeRawConfig w raw\<rparr>, ?m1\<lparr>activeProfileId := Some a\<rparr>)"
      using loaded valid a by (simp add: persistRawConfig_def Let_def saveRawProfilesConfig_def)
    then show ?thesis using assms loaded valid pa by auto
  qed
qed

lemma persist_invalid:
  "validateRawProfilesConfig w raw = Inl e \<Longrightarrow>
   \<exists>e'. persistRawConfig w m raw preferred = (Inl e', w, m)"
  by (cases "ensureLoaded m") (auto simp: persistRawConfig_def)


lemma find_hasProfile:
  "find (\<lambda>item. p_id item = pid) ps = None \<longleftrightarrow> \<not> hasProfile ps pid"
  by (auto simp: hasProfile_def find_None_iff)

lemma mapE_snoc_Inr:
  "mapE f (xs @ [x]) = Inr ys \<Longrightarrow> \<exists>ys' y. ys = ys' @ [y] \<and> f x = Inr y"
proof (induction xs arbitrary: ys)
  case Nil
  then show ?case by (auto split: sum.splits)
next
  case (Cons a xs)
  from Cons.prems obtain v vs where v: "f a = Inr v" and vs: "mapE f (xs @ [x]) = Inr vs"
    and ys: "ys = v # vs"
    by (auto split: sum.splits)
  from Cons.IH [OF vs] obtain ys' y where "vs = ys' @ [y]" "f x = Inr y" by blast
  then show ?case using ys by (intro exI [of _ "v # ys'"] exI [of _ y]) simp
qed

lemma validateProfileAuthFields_key:
  "validateProfileAuthFields w ps = Inr () \<Longrightarrow> p \<in> set ps \<Longrightarrow> p_auth p = KeyAuth k
     \<Longrightarrow> keyFileAccessible w k"
  by (induction ps) (auto split: ProfileAuth.splits if_splits)

lemma missing_key_invalid:
  assumes new: "raw_profiles raw = old @ [new]" "r_auth new = KeyAuth keyPath"
    and missing: "\<forall>expanded. expandEnvString (env w) keyPath = Inr expanded
                    \<longrightarrow> \<not> keyFileAccessible w expanded"
  shows "\<exists>e. validateRawProfilesConfig w raw = Inl e"
proof (cases "validateRawProfilesConfig w raw")
  case (Inl e)
  then show ?thesis by blast
next
  case (Inr c)
  then obtain eraw where
    ex: "expandEnv (env w) raw = Inr eraw"
    and parsed: "profilesConfigSchema_parse eraw = Inr c"
    and auth: "validateProfileAuthFields w (profiles c) = Inr ()"
    by (auto simp: validateRawProfilesConfig_def bindE_Inr)
  from ex new(1) have "mapE (expandEnvProfile (env w)) (old @ [new]) = Inr (raw_profiles eraw)"
    by (auto simp: expandEnv_def bindE_Inr)
  from mapE_snoc_Inr [OF this] obtain es enew where
    es: "raw_profiles eraw = es @ [enew]" and enew: "expandEnvProfile (env w) new = Inr enew"
    by blast
  from enew new(2) obtain expanded where
    kp: "expandEnvString (env w) keyPath = Inr expanded" and ea: "r_auth enew = KeyAuth expanded"
    by (auto simp: expandEnvProfile_def expandEnvAuth_def bindE_Inr)
  from parsed es have "mapE profileSchema_parse (es @ [enew]) = Inr (profiles c)"
    by (auto simp: profilesConfigSchema_parse_def bindE_Inr split: if_splits)
  from mapE_snoc_Inr [OF this] obtain cs cnew where
    cs: "profiles c = cs @ [cnew]" and cnew: "profileSchema_parse enew = Inr cnew"
    by blast
  from cnew ea have "p_auth cnew = KeyAuth expanded"
    by (auto simp: profileSchema_parse_def Let_def split: if_splits)
  with auth cs have "keyFileAccessible w expanded"
    using validateProfileAuthFields_key [of w "profiles c" cnew expanded] by simp
  with missing kp show ?thesis by blast
qed

lemma nextRawConfig_profiles:
  "raw_profiles (createProfile_nextRawConfig loaded input note)
     = raw_profiles (rawConfig loaded) @ [createProfile_rawProfile input note]"
  by (simp add: createProfile_nextRawConfig_def Let_def)

text \<open>
  C7. In a loaded manager, \<open>createProfile\<close> rejects and leaves the world and the manager as
  they were, so the configuration file keeps its content byte for byte, whenever the id
  names an existing profile, or the schema rejects the input, or the validation of the
  document with the new profile fails; in particular for key authentication when the
  key file (at the expanded key path) does not exist. The file is written only by
  \<open>persistRawConfig\<close>, behind the validation.
\<close>

theorem C7_createProfile_rejects_before_write:
  assumes "ensureLoaded m = Inr loaded"
    and "hasProfile (profiles (config loaded)) (i_id input)
       \<or> (\<exists>e. profileSchema_parse (createProfile_schemaInput input) = Inl e)
       \<or> (\<exists>parsed e. profileSchema_parse (createProfile_schemaInput input) = Inr parsed
             \<and> validateRawProfilesConfig w
                  (createProfile_nextRawConfig loaded input (p_note parsed)) = Inl e)
       \<or> (\<exists>keyPath. i_auth input = KeyAuth keyPath
             \<and> (\<forall>expanded. expandEnvString (env w) keyPath = Inr expanded
                    \<longrightarrow> \<not> keyFileAccessible w expanded))"
  shows "(\<exists>e. createProfile w m input = (Inl e, w, m))
       \<and> configFile (fst (snd (createProfile w m input))) = configFile w"
proof -
  have rejects: "\<exists>e. createProfile w m input = (Inl e, w, m)"
  proof (cases "hasProfile (profiles (config loaded)) (i_id input)")
    case True
    then show ?thesis using assms(1) by (simp add: createProfile_def find_hasProfile)
  next
    case fresh: False
    show ?thesis
    proof (cases "profileSchema_parse (createProfile_schemaInput input)")
      case (Inl e)
      then show ?thesis using assms(1) fresh by (simp add: createProfile_def find_hasProfile)
    next
      case parsed: (Inr parsed)
      let ?raw = "createProfile_nextRawConfig loaded input (p_note parsed)"
      have "\<exists>e. validateRawProfilesConfig w ?raw = Inl e"
      proof -
        from assms(2) fresh parsed consider
            (invalid) e where "validateRawProfilesConfig w ?raw = Inl e"
          | (key) keyPath where "i_auth input = KeyAuth keyPath"
              "\<forall>expanded. expandEnvString (env w) keyPath = Inr expanded
                    \<longrightarrow> \<not> keyFileAccessible w expanded"
          by auto
        then show ?thesis
        proof cases
          case invalid
          then show ?thesis by blast
        next
          case key
          have "r_auth (createProfile_rawProfile input (p_note parsed)) = KeyAuth keyPath"
            using key(1) by (simp add: createProfile_rawProfile_def)
          from missing_key_invalid [OF nextRawConfig_profiles this key(2)]
          show ?thesis .
        qed
      qed
      then obtain e where "validateRawProfilesConfig w ?raw = Inl e" by blast
      from persist_invalid [OF this]
      obtain e' where "persistRawConfig w m ?raw
          (if shouldActivate input then Some (i_id input) else activeProfileId m) = (Inl e', w, m)"
        by blast
      then show ?thesis
        using assms(1) fresh parsed by (simp add: createProfile_def find_hasProfile)
    qed
  qed
  then show ?thesis by auto
qed


theorem C7_createProfile_rejects_before_write_witness:
  "(\<exists>e. createProfile exWorld exManager exBrokenKeyInput = (Inl e, exWorld, exManager))
   \<and> configFile (fst (snd (createProfile exWorld exManager exBrokenKeyInput)))
       = ''activeProfile: beta profiles: alpha,beta,gamma''"
proof -
  have loaded: "ensureLoaded exManager = Inr exLoaded"
    by (simp add: ensureLoaded_def exManager_def)
  have missing: "i_auth exBrokenKeyInput = KeyAuth ''./keys/not-exists''
      \<and> (\<forall>expanded. expandEnvString (env exWorld) ''./keys/not-exists'' = Inr expanded
             \<longrightarrow> \<not> keyFileAccessible exWorld expanded)"
    by (simp add: exBrokenKeyInput_def exWorld_def)
  have content: "configFile exWorld = ''activeProfile: beta profiles: alpha,beta,gamma''"
    by (simp add: exWorld_def)
  have "hasProfile (profiles (config exLoaded)) (i_id exBrokenKeyInput)
       \<or> (\<exists>e. profileSchema_parse (createProfile_schemaInput exBrokenKeyInput) = Inl e)
       \<or> (\<exists>parsed e. profileSchema_parse (createProfile_schemaInput exBrokenKeyInput) = Inr parsed
             \<and> validateRawProfilesConfig exWorld
                  (createProfile_nextRawConfig exLoaded exBrokenKeyInput (p_note parsed)) = Inl e)
       \<or> (\<exists>keyPath. i_auth exBrokenKeyInput = KeyAuth keyPath
             \<and> (\<forall>expanded. expandEnvString (env exWorld) keyPath = Inr expanded
                    \<longrightarrow> \<not> keyFileAccessible exWorld expanded))"
    using missing by blast
  from C7_createProfile_rejects_before_write [OF loaded this] content
  show ?thesis by simp
qed

lemma first_remaining:
  "ps \<noteq> [] \<Longrightarrow> hasProfile ps (p_id (hd ps))"
  by (cases ps) (simp_all add: hasProfile_def)

lemma not_remaining:
  "\<not> hasProfile (filter (\<lambda>item. p_id item \<noteq> pid) ps) pid"
  by (auto simp: hasProfile_def)

lemma mapE_Inr_set:
  "mapE f xs = Inr ys \<Longrightarrow> y \<in> set ys \<Longrightarrow> \<exists>x \<in> set xs. f x = Inr y"
  by (induction xs arbitrary: ys) (auto split: sum.splits)

lemma validate_ids_nonempty:
  assumes "validateRawProfilesConfig w raw = Inr c" and "hasProfile (profiles c) pid"
  shows "pid \<noteq> []"
proof -
  from assms(1) obtain expanded where
    parsed: "profilesConfigSchema_parse expanded = Inr c"
    by (auto simp: validateRawProfilesConfig_def bindE_Inr)
  then have all: "mapE profileSchema_parse (raw_profiles expanded) = Inr (profiles c)"
    by (auto simp: profilesConfigSchema_parse_def bindE_Inr split: if_splits)
  from assms(2) obtain p where p: "p \<in> set (profiles c)" "p_id p = pid"
    by (auto simp: hasProfile_def)
  from mapE_Inr_set [OF all p(1)] obtain rp where "profileSchema_parse rp = Inr p" by blast
  then have "p_id p \<noteq> []"
    by (auto simp: profileSchema_parse_def Let_def split: if_splits)
  with p(2) show ?thesis by simp
qed

lemma confirm_success:
  assumes "confirmDeleteProfile w m now rid pid text = (Inr res, w', m')"
  obtains pending loaded runtime profileToDelete nextPersisted nextRuntime nextRaw c a where
    "pendingDeletes m rid = Some pending" and "\<not> expiresAt pending < now"
    and "profileId pending = pid" and "trim text = ''DELETE '' @ pid"
    and "ensureLoaded m = Inr loaded" and "activeProfileId m = Some runtime"
    and "getProfile m pid = Inr profileToDelete"
    and "filter (\<lambda>item. p_id item \<noteq> pid) (profiles (config loaded)) \<noteq> []"
    and "nextPersisted =
           (if hasProfile (filter (\<lambda>item. p_id item \<noteq> pid) (profiles (config loaded)))
                 (readPersistedActiveProfileId (rawConfig loaded) (activeProfile (config loaded)))
            then readPersistedActiveProfileId (rawConfig loaded) (activeProfile (config loaded))
            else p_id (hd (filter (\<lambda>item. p_id item \<noteq> pid) (profiles (config loaded)))))"
    and "nextRuntime =
           (if hasProfile (filter (\<lambda>item. p_id item \<noteq> pid) (profiles (config loaded))) runtime
            then runtime else nextPersisted)"
    and "nextRaw = (rawConfig loaded)\<lparr>raw_profiles :=
                      filter (\<lambda>item. r_id item \<noteq> pid) (raw_profiles (rawConfig loaded)),
                    raw_activeProfile := nextPersisted\<rparr>"
    and "validateRawProfilesConfig w nextRaw = Inr c"
    and "res = \<lparr> deletedProfileId = pid,
                 deletedProfile = profileSummary profileToDelete nextRuntime,
                 cd_activeProfile = nextRuntime, persistedActiveProfile = nextPersisted,
                 cd_backupPath = backupPath pending \<rparr>"
    and "w' = w\<lparr>configFile := serializeRawConfig w nextRaw\<rparr>"
    and "m' = m\<lparr>loadedConfig := Some (loaded\<lparr>rawConfig := nextRaw, config := c\<rparr>),
                  activeProfileId := Some a,
                  pendingDeletes := (pendingDeletes m)(rid := None)\<rparr>"
    and "hasProfile (profiles c) nextRuntime \<longrightarrow> a = nextRuntime"
proof -
  from assms obtain pending where pending: "pendingDeletes m rid = Some pending"
    by (auto simp: confirmDeleteProfile_def split: option.splits)
  from assms pending have ok: "\<not> expiresAt pending < now" "profileId pending = pid"
    "trim text = ''DELETE '' @ pid"
    by (auto simp: confirmDeleteProfile_def split: if_splits)
  from assms pending ok obtain loaded where loaded: "ensureLoaded m = Inr loaded"
    by (cases "ensureLoaded m") (auto simp: confirmDeleteProfile_def)
  from loaded obtain runtime where runtime: "activeProfileId m = Some runtime"
    by (auto simp: ensureLoaded_def split: option.splits if_splits)
  from assms pending ok loaded obtain profileToDelete where prof: "getProfile m pid = Inr profileToDelete"
    by (cases "getProfile m pid") (auto simp: confirmDeleteProfile_def)
  let ?remaining = "filter (\<lambda>item. p_id item \<noteq> pid) (profiles (config loaded))"
  let ?persisted = "readPersistedActiveProfileId (rawConfig loaded) (activeProfile (config loaded))"
  let ?nextPersisted = "if hasProfile ?remaining ?persisted then ?persisted else p_id (hd ?remaining)"
  let ?nextRuntime = "if hasProfile ?remaining runtime then runtime else ?nextPersisted"
  let ?filtered = "filter (\<lambda>item. r_id item \<noteq> pid) (raw_profiles (rawConfig loaded))"
  let ?nextRaw = "(rawConfig loaded)\<lparr>raw_profiles := ?filtered, raw_activeProfile := ?nextPersisted\<rparr>"
  have rem: "?remaining \<noteq> []"
    using assms pending ok loaded prof
    by (auto simp: confirmDeleteProfile_def Let_def split: if_splits)
  note first = first_remaining [OF rem]
  note gone = not_remaining [of pid "profiles (config loaded)"]
  let ?codeP = "if hasProfile ?remaining (if ?persisted = pid then p_id (hd ?remaining) else ?persisted)
                then (if ?persisted = pid then p_id (hd ?remaining) else ?persisted)
                else p_id (hd ?remaining)"
  let ?codeR = "if hasProfile ?remaining (if runtime = pid then ?codeP else runtime)
                then (if runtime = pid then ?codeP else runtime)
                else ?codeP"
  have normP: "?codeP = ?nextPersisted"
    using first gone by auto
  have inP: "hasProfile ?remaining ?nextPersisted" using first by auto
  have normR: "(if hasProfile ?remaining (if runtime = pid then ?nextPersisted else runtime)
                then (if runtime = pid then ?nextPersisted else runtime)
                else ?nextPersisted) = ?nextRuntime"
    using inP gone by auto
  have unf: "confirmDeleteProfile w m now rid pid text =
      (if length ?filtered = length (raw_profiles (rawConfig loaded))
       then (Inl (RawProfileNotFound pid), w, m)
       else (case persistRawConfig w m ?nextRaw (Some ?nextRuntime) of
                 (Inl e, w', m') \<Rightarrow> (Inl e, w', m')
               | (Inr _, w', m') \<Rightarrow>
                   (Inr \<lparr> deletedProfileId = pid,
                          deletedProfile = profileSummary profileToDelete ?nextRuntime,
                          cd_activeProfile = ?nextRuntime, persistedActiveProfile = ?nextPersisted,
                          cd_backupPath = backupPath pending \<rparr>,
                    w', m'\<lparr>pendingDeletes := (pendingDeletes m')(rid := None)\<rparr>)))"
  proof -
    have code: "confirmDeleteProfile w m now rid pid text =
      (if length ?filtered = length (raw_profiles (rawConfig loaded))
       then (Inl (RawProfileNotFound pid), w, m)
       else (case persistRawConfig w m
                    ((rawConfig loaded)\<lparr>raw_profiles := ?filtered, raw_activeProfile := ?codeP\<rparr>)
                    (Some ?codeR) of
                 (Inl e, w', m') \<Rightarrow> (Inl e, w', m')
               | (Inr _, w', m') \<Rightarrow>
                   (Inr \<lparr> deletedProfileId = pid,
                          deletedProfile = profileSummary profileToDelete ?codeR,
                          cd_activeProfile = ?codeR, persistedActiveProfile = ?codeP,
                          cd_backupPath = backupPath pending \<rparr>,
                    w', m'\<lparr>pendingDeletes := (pendingDeletes m')(rid := None)\<rparr>)))"
      using pending ok loaded runtime prof rem
      by (simp add: confirmDeleteProfile_def Let_def split del: if_split)
    show ?thesis by (simp only: code normP normR)
  qed
  have body: "(case persistRawConfig w m ?nextRaw (Some ?nextRuntime) of
                 (Inl e, w', m') \<Rightarrow> (Inl e, w', m')
               | (Inr _, w', m') \<Rightarrow>
                   (Inr \<lparr> deletedProfileId = pid,
                          deletedProfile = profileSummary profileToDelete ?nextRuntime,
                          cd_activeProfile = ?nextRuntime, persistedActiveProfile = ?nextPersisted,
                          cd_backupPath = backupPath pending \<rparr>,
                    w', m'\<lparr>pendingDeletes := (pendingDeletes m')(rid := None)\<rparr>))
              = (Inr res, w', m')"
    using assms unfolding unf by (simp split: if_splits)
  obtain pr pw pm where p: "persistRawConfig w m ?nextRaw (Some ?nextRuntime) = (pr, pw, pm)"
    by (cases "persistRawConfig w m ?nextRaw (Some ?nextRuntime)") auto
  from body p have pr: "pr = Inr ()" and w': "w' = pw"
    and m': "m' = pm\<lparr>pendingDeletes := (pendingDeletes pm)(rid := None)\<rparr>"
    and res: "res = \<lparr> deletedProfileId = pid,
                          deletedProfile = profileSummary profileToDelete ?nextRuntime,
                          cd_activeProfile = ?nextRuntime, persistedActiveProfile = ?nextPersisted,
                          cd_backupPath = backupPath pending \<rparr>"
    by (auto split: sum.splits)
  from persist_result [OF p] pr loaded obtain c a where
    c: "validateRawProfilesConfig w ?nextRaw = Inr c"
    and pw: "pw = w\<lparr>configFile := serializeRawConfig w ?nextRaw\<rparr>"
    and pm: "pm = m\<lparr>loadedConfig := Some (loaded\<lparr>rawConfig := ?nextRaw, config := c\<rparr>),
                     activeProfileId := Some a\<rparr>"
    and a: "\<forall>p. Some ?nextRuntime = Some p \<and> p \<noteq> [] \<and> hasProfile (profiles c) p \<longrightarrow> a = p"
    by auto
  have w'': "w' = w\<lparr>configFile := serializeRawConfig w ?nextRaw\<rparr>"
    using w' pw by simp
  have m'': "m' = m\<lparr>loadedConfig := Some (loaded\<lparr>rawConfig := ?nextRaw, config := c\<rparr>),
                   activeProfileId := Some a,
                   pendingDeletes := (pendingDeletes m)(rid := None)\<rparr>"
    using m' pm by simp
  have resolved: "hasProfile (profiles c) ?nextRuntime \<longrightarrow> a = ?nextRuntime"
    using a validate_ids_nonempty [OF c] by blast
  show thesis
    by (rule that [OF pending ok(1) ok(2) ok(3) loaded runtime prof rem refl refl refl
                      c res w'' m'' resolved])
qed

lemma confirm_rejects_unchanged:
  assumes "pendingDeletes m rid = Some pending" and "\<not> expiresAt pending < now"
    and "profileId pending \<noteq> pid \<or> trim text \<noteq> ''DELETE '' @ pid"
  shows "\<exists>e. confirmDeleteProfile w m now rid pid text = (Inl e, w, m)"
  using assms by (auto simp: confirmDeleteProfile_def)

lemma confirm_wrong_text:
  assumes "trim text \<noteq> ''DELETE '' @ pid"
  shows "(\<exists>e. fst (confirmDeleteProfile w m now rid pid text) = Inl e)
       \<and> fst (snd (confirmDeleteProfile w m now rid pid text)) = w
       \<and> loadedConfig (snd (snd (confirmDeleteProfile w m now rid pid text))) = loadedConfig m"
  using assms by (auto simp: confirmDeleteProfile_def split: option.splits)

lemma confirm_failure:
  assumes "confirmDeleteProfile w m now rid pid text = (Inl e, w', m')"
  shows "w' = w \<and> (m' = m \<or> (\<exists>p. pendingDeletes m rid = Some p \<and> expiresAt p < now
                         \<and> m' = m\<lparr>pendingDeletes := (pendingDeletes m)(rid := None)\<rparr>))"
proof (cases "pendingDeletes m rid")
  case None
  then show ?thesis using assms by (simp add: confirmDeleteProfile_def)
next
  case pending: (Some pending)
  show ?thesis
  proof (cases "expiresAt pending < now \<or> profileId pending \<noteq> pid
                \<or> trim text \<noteq> ''DELETE '' @ pid")
    case True
    then show ?thesis using assms pending
      by (auto simp: confirmDeleteProfile_def split: if_splits)
  next
    case ok: False
    show ?thesis
    proof (cases "ensureLoaded m")
      case (Inl e')
      then show ?thesis using assms pending ok by (auto simp: confirmDeleteProfile_def)
    next
      case loaded: (Inr loaded)
      show ?thesis
      proof (cases "getProfile m pid")
        case (Inl e')
        then show ?thesis using assms pending ok loaded by (auto simp: confirmDeleteProfile_def)
      next
        case prof: (Inr profileToDelete)
        show ?thesis
        proof (cases "filter (\<lambda>item. p_id item \<noteq> pid) (profiles (config loaded)) = []
                    \<or> length (filter (\<lambda>item. r_id item \<noteq> pid) (raw_profiles (rawConfig loaded)))
                        = length (raw_profiles (rawConfig loaded))")
          case True
          then show ?thesis using assms pending ok loaded prof
            by (auto simp: confirmDeleteProfile_def Let_def split: if_splits)
        next
          case False
          from assms pending ok loaded prof False
          have "\<exists>raw pref e'. persistRawConfig w m raw pref = (Inl e', w', m')"
            by (simp add: confirmDeleteProfile_def Let_def split del: if_split)
               (auto split: prod.splits sum.splits)
          then obtain raw pref e' where "persistRawConfig w m raw pref = (Inl e', w', m')"
            by blast
          from persist_result [OF this] show ?thesis by auto
        qed
      qed
    qed
  qed
qed

lemma prepare_success:
  assumes "prepareDeleteProfile w m now uuid path pid = (Inr pd, w', m')"
  shows "pendingDeletes m' = (pendingDeletes m)(uuid \<mapsto>
            \<lparr> requestId = uuid, profileId = pid, backupPath = path,
              createdAt = now, expiresAt = now + 600000 \<rparr>)
       \<and> loadedConfig m' = loadedConfig m \<and> activeProfileId m' = activeProfileId m
       \<and> configFile w' = configFile w
       \<and> deleteRequestId pd = uuid \<and> confirmationText pd = ''DELETE '' @ pid
       \<and> pd_expiresAt pd = now + 600000"
  using assms
  by (auto simp: prepareDeleteProfile_def Let_def backupCurrentConfig_def
           split: sum.splits if_splits)


lemma confirm_success_basic:
  assumes "confirmDeleteProfile w m now rid pid text = (Inr res, w', m')"
  shows "trim text = ''DELETE '' @ pid \<and> deletedProfileId res = pid
       \<and> (\<exists>loaded'. loadedConfig m' = Some loaded'
             \<and> pid \<notin> set (map r_id (raw_profiles (rawConfig loaded'))))
       \<and> pendingDeletes m' = (pendingDeletes m)(rid := None)"
  using assms
proof (rule confirm_success)
  fix pending loaded runtime profileToDelete nextPersisted nextRuntime nextRaw c a
  assume trimmed: "trim text = ''DELETE '' @ pid"
    and raw: "nextRaw = (rawConfig loaded)\<lparr>raw_profiles :=
                      filter (\<lambda>item. r_id item \<noteq> pid) (raw_profiles (rawConfig loaded)),
                    raw_activeProfile := nextPersisted\<rparr>"
    and res: "res = \<lparr> deletedProfileId = pid,
                 deletedProfile = profileSummary profileToDelete nextRuntime,
                 cd_activeProfile = nextRuntime, persistedActiveProfile = nextPersisted,
                 cd_backupPath = backupPath pending \<rparr>"
    and m': "m' = m\<lparr>loadedConfig := Some (loaded\<lparr>rawConfig := nextRaw, config := c\<rparr>),
                  activeProfileId := Some a,
                  pendingDeletes := (pendingDeletes m)(rid := None)\<rparr>"
  have "loadedConfig m' = Some (loaded\<lparr>rawConfig := nextRaw, config := c\<rparr>)"
    using m' by simp
  moreover have "pid \<notin> set (map r_id (raw_profiles nextRaw))"
    using raw by auto
  moreover have "deletedProfileId res = pid" using res by simp
  moreover have "pendingDeletes m' = (pendingDeletes m)(rid := None)" using m' by simp
  ultimately show ?thesis using trimmed by simp
qed

text \<open>
  C1, as the code has it. \<open>confirmDeleteProfile\<close> compares the confirmation text after
  trimming: whenever the text without its leading and trailing white space is not the
  literal \<open>DELETE <id>\<close>, the call fails, writes nothing and leaves the loaded
  configuration alone; and when it succeeds, the trimmed text is that literal, the
  deleted id is \<open>id\<close>, and no raw profile with this id is left in the document.
\<close>

theorem C1_confirmation_text:
  "(trim text \<noteq> ''DELETE '' @ pid \<longrightarrow>
       (\<exists>e. fst (confirmDeleteProfile w m now rid pid text) = Inl e)
     \<and> fst (snd (confirmDeleteProfile w m now rid pid text)) = w
     \<and> loadedConfig (snd (snd (confirmDeleteProfile w m now rid pid text))) = loadedConfig m)
   \<and> (\<forall>res w' m'. confirmDeleteProfile w m now rid pid text = (Inr res, w', m') \<longrightarrow>
         trim text = ''DELETE '' @ pid \<and> deletedProfileId res = pid
       \<and> (\<exists>loaded'. loadedConfig m' = Some loaded'
             \<and> pid \<notin> set (map r_id (raw_profiles (rawConfig loaded')))))"
proof (intro conjI allI impI)
  assume "trim text \<noteq> ''DELETE '' @ pid"
  from confirm_wrong_text [OF this, of w m now rid]
  show "\<exists>e. fst (confirmDeleteProfile w m now rid pid text) = Inl e"
    and "fst (snd (confirmDeleteProfile w m now rid pid text)) = w"
    and "loadedConfig (snd (snd (confirmDeleteProfile w m now rid pid text))) = loadedConfig m"
    by blast+
next
  fix res w' m'
  assume ok: "confirmDeleteProfile w m now rid pid text = (Inr res, w', m')"
  from confirm_success_basic [OF ok]
  show "trim text = ''DELETE '' @ pid" and "deletedProfileId res = pid"
    and "\<exists>loaded'. loadedConfig m' = Some loaded'
             \<and> pid \<notin> set (map r_id (raw_profiles (rawConfig loaded')))"
    by blast+
qed

text \<open>C1 as the claim has it demands the exact literal. The text \<open>DELETE gamma\<close> followed
  by a space is not the literal, and the delete succeeds.\<close>

theorem C1_trimmed_text_accepted:
  "''DELETE gamma '' \<noteq> ''DELETE gamma''
   \<and> fst (confirmDeleteProfile exWorld exPrepared 1000 ''req-1'' ''gamma'' ''DELETE gamma '')
       = Inr \<lparr> deletedProfileId = ''gamma'',
               deletedProfile = profileSummary (exProfile ''gamma'' ''gamma.example.com'') ''beta'',
               cd_activeProfile = ''beta'', persistedActiveProfile = ''beta'',
               cd_backupPath = ''bak'' \<rparr>"
  by code_simp

theorem C1_confirmation_text_witness:
  "(\<exists>e. fst (confirmDeleteProfile exWorld exPrepared 1000 ''req-1'' ''gamma'' ''DELETE alpha'') = Inl e)
   \<and> (\<exists>loaded'. loadedConfig (snd (snd (confirmDeleteProfile exWorld exPrepared 1000
                                           ''req-1'' ''gamma'' ''DELETE gamma''))) = Some loaded'
         \<and> ''gamma'' \<notin> set (map r_id (raw_profiles (rawConfig loaded'))))"
proof -
  let ?wrong = "confirmDeleteProfile exWorld exPrepared 1000 ''req-1'' ''gamma'' ''DELETE alpha''"
  let ?right = "confirmDeleteProfile exWorld exPrepared 1000 ''req-1'' ''gamma'' ''DELETE gamma''"
  let ?res = "\<lparr> deletedProfileId = ''gamma'',
               deletedProfile = profileSummary (exProfile ''gamma'' ''gamma.example.com'') ''beta'',
               cd_activeProfile = ''beta'', persistedActiveProfile = ''beta'',
               cd_backupPath = ''bak'' \<rparr>"
  have differs: "trim ''DELETE alpha'' \<noteq> ''DELETE '' @ ''gamma''" by code_simp
  have "fst ?right = Inr ?res" by code_simp
  then have succeeded: "?right = (Inr ?res, fst (snd ?right), snd (snd ?right))"
    by (metis prod.collapse)
  note claim = C1_confirmation_text [of "''DELETE alpha''" "''gamma''" exWorld exPrepared 1000 "''req-1''"]
  note claim' = C1_confirmation_text [of "''DELETE gamma''" "''gamma''" exWorld exPrepared 1000 "''req-1''"]
  from claim [THEN conjunct1, THEN mp, OF differs]
  have first: "\<exists>e. fst ?wrong = Inl e" by (rule conjunct1)
  from claim' [THEN conjunct2, THEN spec, THEN spec, THEN spec, THEN mp, OF succeeded]
  have second: "\<exists>loaded'. loadedConfig (snd (snd ?right)) = Some loaded'
         \<and> ''gamma'' \<notin> set (map r_id (raw_profiles (rawConfig loaded')))"
    by (elim conjE)
  from first second show ?thesis by (rule conjI)
qed





text \<open>
  C9. A call of \<open>confirmDeleteProfile\<close> leaves the store of pending requests as it was,
  or removes exactly the request it names, and it removes it only when it succeeds or
  finds the request expired. A call that names a pending, unexpired request with another
  profile id or a wrong confirmation text fails and changes nothing, so any later call
  gives what it would have given without it. \<open>prepareDeleteProfile\<close> stores the request
  under the id it returns, with the expiry ten minutes after its creation, and a request
  is expired only when the clock is past that expiry.
\<close>

theorem C9_failed_confirm_keeps_request:
  "(\<forall>res w' m'. confirmDeleteProfile w m now rid pid text = (res, w', m') \<longrightarrow>
        pendingDeletes m' = pendingDeletes m
      \<or> (pendingDeletes m' = (pendingDeletes m)(rid := None)
           \<and> ((\<exists>ok. res = Inr ok)
                \<or> (\<exists>p. pendingDeletes m rid = Some p \<and> expiresAt p < now))))
   \<and> (\<forall>p. pendingDeletes m rid = Some p \<and> now \<le> expiresAt p
            \<and> (profileId p \<noteq> pid \<or> trim text \<noteq> ''DELETE '' @ pid)
        \<longrightarrow> (\<exists>e. confirmDeleteProfile w m now rid pid text = (Inl e, w, m))
          \<and> (\<forall>later pid2 text2.
                (case confirmDeleteProfile w m now rid pid text of
                   (_, w1, m1) \<Rightarrow> confirmDeleteProfile w1 m1 later rid pid2 text2)
                = confirmDeleteProfile w m later rid pid2 text2))
   \<and> (\<forall>pd w1 m1 uuid path.
          prepareDeleteProfile w m now uuid path pid = (Inr pd, w1, m1) \<longrightarrow>
            deleteRequestId pd = uuid \<and> confirmationText pd = ''DELETE '' @ pid
          \<and> pendingDeletes m1 uuid
              = Some \<lparr> requestId = uuid, profileId = pid, backupPath = path,
                       createdAt = now, expiresAt = now + 10 * 60 * 1000 \<rparr>)"
proof (intro conjI allI impI)
  fix res w' m'
  assume run: "confirmDeleteProfile w m now rid pid text = (res, w', m')"
  show "pendingDeletes m' = pendingDeletes m
      \<or> (pendingDeletes m' = (pendingDeletes m)(rid := None)
           \<and> ((\<exists>ok. res = Inr ok)
                \<or> (\<exists>p. pendingDeletes m rid = Some p \<and> expiresAt p < now)))"
  proof (cases res)
    case (Inl e)
    from confirm_failure [OF run [unfolded Inl]] show ?thesis by auto
  next
    case (Inr ok)
    from confirm_success_basic [OF run [unfolded Inr]] Inr show ?thesis by blast
  qed
next
  fix p
  assume a: "pendingDeletes m rid = Some p \<and> now \<le> expiresAt p
            \<and> (profileId p \<noteq> pid \<or> trim text \<noteq> ''DELETE '' @ pid)"
  then have "\<not> expiresAt p < now" by simp
  from confirm_rejects_unchanged [OF a [THEN conjunct1] this a [THEN conjunct2, THEN conjunct2]]
  show rejected: "\<exists>e. confirmDeleteProfile w m now rid pid text = (Inl e, w, m)" .
  fix later pid2 text2
  from rejected
  show "(case confirmDeleteProfile w m now rid pid text of
                   (_, w1, m1) \<Rightarrow> confirmDeleteProfile w1 m1 later rid pid2 text2)
                = confirmDeleteProfile w m later rid pid2 text2"
    by auto
next
  fix pd w1 m1 uuid path
  assume "prepareDeleteProfile w m now uuid path pid = (Inr pd, w1, m1)"
  from prepare_success [OF this]
  show "deleteRequestId pd = uuid" and "confirmationText pd = ''DELETE '' @ pid"
    and "pendingDeletes m1 uuid
              = Some \<lparr> requestId = uuid, profileId = pid, backupPath = path,
                       createdAt = now, expiresAt = now + 10 * 60 * 1000 \<rparr>"
    by simp_all
qed

theorem C9_failed_confirm_keeps_request_witness:
  "(\<exists>e. confirmDeleteProfile exWorld exPrepared 1000 ''req-1'' ''gamma'' ''DELETE alpha''
          = (Inl e, exWorld, exPrepared))
   \<and> fst (case confirmDeleteProfile exWorld exPrepared 1000 ''req-1'' ''gamma'' ''DELETE alpha'' of
            (_, w1, m1) \<Rightarrow> confirmDeleteProfile w1 m1 600000 ''req-1'' ''gamma'' ''DELETE gamma'')
       = Inr \<lparr> deletedProfileId = ''gamma'',
               deletedProfile = profileSummary (exProfile ''gamma'' ''gamma.example.com'') ''beta'',
               cd_activeProfile = ''beta'', persistedActiveProfile = ''beta'',
               cd_backupPath = ''bak'' \<rparr>"
proof -
  let ?pending = "\<lparr> requestId = ''req-1'', profileId = ''gamma'', backupPath = ''bak'',
                    createdAt = 0, expiresAt = 600000 \<rparr>"
  have pending: "pendingDeletes exPrepared ''req-1'' = Some ?pending"
    by (simp add: exPrepared_def)
  have differs: "trim ''DELETE alpha'' \<noteq> ''DELETE '' @ ''gamma''" by code_simp
  have held: "pendingDeletes exPrepared ''req-1'' = Some ?pending \<and> (1000::int) \<le> expiresAt ?pending
            \<and> (profileId ?pending \<noteq> ''gamma'' \<or> trim ''DELETE alpha'' \<noteq> ''DELETE '' @ ''gamma'')"
    using pending differs by simp
  note kept = C9_failed_confirm_keeps_request
    [of exWorld exPrepared 1000 "''req-1''" "''gamma''" "''DELETE alpha''",
     THEN conjunct2, THEN conjunct1, THEN spec, THEN mp, OF held]
  have later: "fst (confirmDeleteProfile exWorld exPrepared 600000 ''req-1'' ''gamma'' ''DELETE gamma'')
       = Inr \<lparr> deletedProfileId = ''gamma'',
               deletedProfile = profileSummary (exProfile ''gamma'' ''gamma.example.com'') ''beta'',
               cd_activeProfile = ''beta'', persistedActiveProfile = ''beta'',
               cd_backupPath = ''bak'' \<rparr>"
    by code_simp
  from kept [THEN conjunct1] kept [THEN conjunct2, THEN spec, THEN spec, THEN spec,
                                    of 600000 "''gamma''" "''DELETE gamma''"] later
  show ?thesis by simp
qed

end
